theory Spec2Isabelle
  imports Main "HOL-Library.Word"
begin

section \<open>Bytes, strings and Python's struct module\<close>

text \<open>
  A byte is an 8-bit word, a bytes object a list of bytes. A Python string is a
  \<open>string\<close>: every \<open>char\<close> is one of the 256 Latin-1 code points, so
  \<open>str.encode("latin1")\<close> is total on this type and maps each character to the byte
  of the same number.
\<close>

type_synonym byte = "8 word"

definition latin1_encode :: "string \<Rightarrow> byte list" where
  "latin1_encode s = map (\<lambda>c. of_nat (of_char c)) s"

definition latin1_decode :: "byte list \<Rightarrow> string" where
  "latin1_decode bs = map (\<lambda>b. char_of (unat b)) bs"

text \<open>\<open>buf[a:b]\<close> for \<open>0 \<le> a\<close>: clamped to the buffer, empty when \<open>b \<le> a\<close>.\<close>

definition py_slice :: "'a list \<Rightarrow> nat \<Rightarrow> nat \<Rightarrow> 'a list" where
  "py_slice buf a b = take (b - a) (drop a buf)"

text \<open>\<open>buf[a:b] = xs\<close> on a bytearray, for \<open>a \<le> b \<le> len(buf)\<close>.\<close>

definition slice_assign :: "'a list \<Rightarrow> nat \<Rightarrow> nat \<Rightarrow> 'a list \<Rightarrow> 'a list" where
  "slice_assign buf a b xs = take a buf @ xs @ drop b buf"

text \<open>\<open>bytes.rstrip(b" \x00")\<close>: drop trailing spaces and NULs.\<close>

definition rstrip :: "byte list \<Rightarrow> byte list" where
  "rstrip bs = rev (dropWhile (\<lambda>b. b = 0x20 \<or> b = 0x00) (rev bs))"

text \<open>Little-endian unsigned integers: the digits of \<open>int.to_bytes\<close> and \<open>int.from_bytes\<close>.\<close>

fun to_le :: "nat \<Rightarrow> nat \<Rightarrow> byte list" where
  "to_le 0 x = []"
| "to_le (Suc n) x = of_nat (x mod 256) # to_le n (x div 256)"

fun from_bytes :: "byte list \<Rightarrow> nat" where
  "from_bytes [] = 0"
| "from_bytes (b # bs) = unat b + 256 * from_bytes bs"

subsection \<open>Exceptions and warnings (errors.py)\<close>

text \<open>
  The argument of an exception's constructor: a string, an integer, bytes, \<open>None\<close>, a
  param value of the value codec, or the result of \<open>"...".format(...)\<close>, kept as the
  format string and its arguments.
\<close>

datatype 'v pyarg =
    AStr string
  | AInt int
  | ABytes "byte list"
  | ANone
  | AVal 'v
  | AFormat string "'v pyarg list"

datatype exn_class = DecodeError | CommandError | DecodeWarning | CommandWarning

text \<open>
  What the model can raise: \<open>struct.error\<close>, the \<open>OverflowError\<close> of \<open>int.to_bytes\<close>,
  the \<open>TypeError\<close> of a call with the wrong number of arguments, and an instance of
  one of the four classes of errors.py, with its \<open>args\<close> and the attributes that its
  constructor set.
\<close>

datatype 'v exn =
    StructError
  | OverflowError
  | TypeError
  | Instance exn_class "'v pyarg list" "(string \<times> 'v pyarg) list"

text \<open>
  \<open>CommandMixin.__init__(self, packet_type, field_name, field_id, message, code)\<close>:
  exactly five positional arguments, stored as attributes; any other number of arguments
  is a \<open>TypeError\<close>.
\<close>

definition CommandMixin_init :: "exn_class \<Rightarrow> 'v pyarg list \<Rightarrow> 'v exn + 'v exn" where
  "CommandMixin_init cls args =
     (case args of
        [packet_type, field_name, field_id, message, code] \<Rightarrow>
          Inr (Instance cls args
            [(''packet_type'', packet_type), (''field_name'', field_name),
             (''field_id'', field_id), (''message'', message), (''code'', code)])
      | _ \<Rightarrow> Inl TypeError)"

text \<open>\<open>class DecodeError(CommandMixin, Exception)\<close>\<close>

definition new_DecodeError :: "'v pyarg list \<Rightarrow> 'v exn + 'v exn" where
  "new_DecodeError args = CommandMixin_init DecodeError args"

text \<open>\<open>class CommandError(Exception)\<close>: any arguments, no attributes.\<close>

definition new_CommandError :: "'v pyarg list \<Rightarrow> 'v exn + 'v exn" where
  "new_CommandError args = Inr (Instance CommandError args [])"

text \<open>\<open>class DecodeWarning(Warning)\<close>\<close>

definition new_DecodeWarning :: "'v pyarg list \<Rightarrow> 'v exn + 'v exn" where
  "new_DecodeWarning args = Inr (Instance DecodeWarning args [])"

text \<open>\<open>class CommandWarning(CommandMixin, Warning)\<close>\<close>

definition new_CommandWarning :: "'v pyarg list \<Rightarrow> 'v exn + 'v exn" where
  "new_CommandWarning args = CommandMixin_init CommandWarning args"

text \<open>
  \<open>raise C(...)\<close>: the exception that propagates is the instance, or the error of the
  constructor call when that fails.
\<close>

definition raise :: "'v exn + 'v exn \<Rightarrow> 'v exn" where
  "raise r = (case r of Inl e \<Rightarrow> e | Inr e \<Rightarrow> e)"

text \<open>
  \<open>warnings.warn(C(...))\<close> under the default filters: the warning is recorded in the
  log of emitted warnings; a failing constructor call raises.
\<close>

definition warn :: "'v exn + 'v exn \<Rightarrow> 'v exn list \<Rightarrow> 'v exn + 'v exn list" where
  "warn r ws = (case r of Inl e \<Rightarrow> Inl e | Inr w \<Rightarrow> Inr (ws @ [w]))"

subsection \<open>struct.pack and struct.unpack\<close>

text \<open>Format \<open>Ns\<close>: the bytes truncated or padded with NULs to \<open>N\<close> bytes.\<close>

definition pack_s :: "nat \<Rightarrow> byte list \<Rightarrow> byte list" where
  "pack_s n bs = take n bs @ replicate (n - length bs) 0"

text \<open>Format \<open>I\<close>: an unsigned 32-bit integer, \<open>struct.error\<close> out of range.\<close>

definition pack_I :: "int \<Rightarrow> 'v exn + byte list" where
  "pack_I x = (if 0 \<le> x \<and> x < 2 ^ 32 then Inr (to_le 4 (nat x)) else Inl StructError)"

text \<open>Format \<open>B\<close>: an unsigned byte, \<open>struct.error\<close> out of range.\<close>

definition pack_B :: "int \<Rightarrow> 'v exn + byte list" where
  "pack_B x = (if 0 \<le> x \<and> x < 256 then Inr [of_int x] else Inl StructError)"

text \<open>\<open>x.to_bytes(n, "little")\<close> for \<open>x \<ge> 0\<close>: \<open>OverflowError\<close> when \<open>x\<close> needs more than \<open>n\<close> bytes.\<close>

definition to_bytes :: "nat \<Rightarrow> nat \<Rightarrow> 'v exn + byte list" where
  "to_bytes n x = (if x < 256 ^ n then Inr (to_le n x) else Inl OverflowError)"

text \<open>
  \<open>Struct.unpack_from(buf, offset)\<close> for a struct of \<open>n\<close> bytes: the bytes of the
  struct, \<open>struct.error\<close> when the buffer is too short. A negative offset counts from
  the end of the buffer.
\<close>

definition unpack_from :: "nat \<Rightarrow> byte list \<Rightarrow> int \<Rightarrow> 'v exn + byte list" where
  "unpack_from n buf offset =
     (let off = (if offset < 0 then offset + int (length buf) else offset)
      in if 0 \<le> off \<and> off + int n \<le> int (length buf)
         then Inr (take n (drop (nat off) buf))
         else Inl StructError)"

text \<open>\<open>Struct.unpack(buf)\<close>: the buffer must have exactly the struct's size.\<close>

definition unpack :: "nat \<Rightarrow> byte list \<Rightarrow> 'v exn + byte list" where
  "unpack n buf = (if length buf = n then Inr buf else Inl StructError)"

section \<open>The packet codec (packets.py)\<close>

text \<open>\<open>decode_identifier\<close>\<close>

definition decode_identifier :: "byte list \<Rightarrow> string" where
  "decode_identifier v = latin1_decode (rstrip v)"

text \<open>
  \<open>FieldData(name, id, params)\<close> and \<open>PacketData(type, id, timestamp, info, fields)\<close>.
  \<open>params\<close> is an \<open>OrderedDict\<close>: an association list in insertion order. The param
  values \<open>'v\<close> are those of the value codec, the timestamps \<open>'t\<close> those of the
  datetime helpers.
\<close>

datatype 'v FieldData =
  FieldData (fd_name: string) (fd_id: int) (fd_params: "(string \<times> 'v) list")

datatype ('v, 't) PacketData =
  PacketData (pd_type: string) (pd_id: int) (pd_timestamp: 't) (pd_info: "byte list")
    (pd_fields: "'v FieldData list")

text \<open>\<open>params[key] = value\<close> on an \<open>OrderedDict\<close>: a present key keeps its place.\<close>

fun od_setitem :: "'k \<Rightarrow> 'v \<Rightarrow> ('k \<times> 'v) list \<Rightarrow> ('k \<times> 'v) list" where
  "od_setitem k v [] = [(k, v)]"
| "od_setitem k v (kv # kvs) =
     (if fst kv = k then (k, v) # kvs else kv # od_setitem k v kvs)"

definition packet_header_magic :: "byte list" where
  "packet_header_magic = [0xDD, 0xCC, 0xBB, 0xAA]"

definition packet_footer_magic :: "byte list" where
  "packet_footer_magic = [0xAA, 0xBB, 0xCC, 0xDD]"

text \<open>\<open>b"\x00\x00\x00\x00\xaa\xbb\xcc\xdd"\<close>: the footer that encode_packet writes and
  that the param loop of decode_fields skips.\<close>

definition packet_footer_bytes :: "byte list" where
  "packet_footer_bytes = [0x00, 0x00, 0x00, 0x00, 0xAA, 0xBB, 0xCC, 0xDD]"

subsection \<open>decode_fields\<close>

text \<open>
  The value codec (values.py) is not part of the sources: \<open>decode_value\<close> and
  \<open>encode_value\<close> are parameters \<open>dv\<close> and \<open>ev\<close> of the codec functions. The inner
  loop over the params of one field may run forever (a param of size 0 does not
  advance the offset), so it is a partial function: \<open>None\<close> is a loop that does not
  return. A returning run gives the warnings emitted so far and either the exception
  raised or the offset and the params reached.
\<close>

partial_function (option) decode_params ::
  "(int \<Rightarrow> byte list \<Rightarrow> 'v exn + 'v) \<Rightarrow> byte list \<Rightarrow> nat \<Rightarrow> nat \<Rightarrow> (string \<times> 'v) list \<Rightarrow>
   'v exn list \<Rightarrow> ('v exn list \<times> ('v exn + nat \<times> (string \<times> 'v) list)) option"
where
  "decode_params dv buf offset param_limit params ws =
     (if offset < param_limit then
        (if py_slice buf offset (offset + 8) = packet_footer_bytes then
           (case warn (new_DecodeWarning [AStr ''Encountered embedded packet footer bug'']) ws of
              Inl e \<Rightarrow> Some (ws, Inl e)
            | Inr ws' \<Rightarrow> decode_params dv buf (offset + 8) param_limit params ws')
         else
           (case unpack_from 8 buf (int offset) of
              Inl e \<Rightarrow> Some (ws, Inl e)
            | Inr hdr \<Rightarrow>
                (let param_name = take 4 hdr;
                     param_size = from_bytes (take 3 (drop 4 hdr)) * 4;
                     param_type_id = int (unat (hdr ! 7));
                     param_value_encoded = py_slice buf (offset + 8) (offset + param_size)
                 in case dv param_type_id param_value_encoded of
                      Inl e \<Rightarrow> Some (ws, Inl e)
                    | Inr v \<Rightarrow>
                        (let params' = od_setitem (decode_identifier param_name) v params;
                             offset' = offset + param_size
                         in if offset' > param_limit then
                              Some (ws, Inl (raise (new_DecodeError
                                [AFormat ''Parameter overflow by {} bytes''
                                   [AInt (int offset' - int param_limit)]])))
                            else decode_params dv buf offset' param_limit params' ws))))
      else Some (ws, Inr (offset, params)))"

partial_function (option) decode_fields ::
  "(int \<Rightarrow> byte list \<Rightarrow> 'v exn + 'v) \<Rightarrow> byte list \<Rightarrow> nat \<Rightarrow> int \<Rightarrow> 'v FieldData list \<Rightarrow>
   'v exn list \<Rightarrow> ('v exn list \<times> ('v exn + 'v FieldData list)) option"
where
  "decode_fields dv buf offset field_limit fields ws =
     (if int offset < field_limit then
        (case unpack_from 12 buf (int offset) of
           Inl e \<Rightarrow> Some (ws, Inl e)
         | Inr hdr \<Rightarrow>
             (let field_name = take 4 hdr;
                  field_size = take 3 (drop 4 hdr);
                  field_id = int (from_bytes (drop 8 hdr));
                  param_limit = offset + from_bytes field_size * 4
              in case decode_params dv buf (offset + 12) param_limit [] ws of
                   None \<Rightarrow> None
                 | Some (ws', Inl e) \<Rightarrow> Some (ws', Inl e)
                 | Some (ws', Inr (offset', params)) \<Rightarrow>
                     decode_fields dv buf offset' field_limit
                       (fields @ [FieldData (decode_identifier field_name) field_id params]) ws'))
      else if int offset > field_limit then
        Some (ws, Inl (raise (new_DecodeError
          [AFormat ''Field overflow by {} bytes'' [AInt (int offset - field_limit)]])))
      else Some (ws, Inr fields))"

subsection \<open>encode_packet\<close>

text \<open>
  The loops of encode_packet over the state \<open>(buf, offset)\<close>. The datetime helpers
  (helpers.py) are not part of the sources: \<open>datetime_to_unix\<close> and
  \<open>unix_to_datetime\<close> are the parameters \<open>dtu\<close> and \<open>utd\<close>.
\<close>

fun encode_params ::
  "('v \<Rightarrow> 'v exn + int \<times> byte list) \<Rightarrow> (string \<times> 'v) list \<Rightarrow> byte list \<times> nat \<Rightarrow>
   'v exn + byte list \<times> nat"
where
  "encode_params ev [] (buf, offset) = Inr (buf, offset)"
| "encode_params ev ((param_name, param_value) # rest) (buf, offset) =
     (case ev param_value of
        Inl e \<Rightarrow> Inl e
      | Inr (param_type_id, param_encoded_value) \<Rightarrow>
          (let param_size = 8 + length param_encoded_value;
               param_padding_size = nat (- int param_size mod 4)
           in case to_bytes 3 ((param_size + param_padding_size) div 4) of
                Inl e \<Rightarrow> Inl e
              | Inr size_bytes \<Rightarrow>
                  (case pack_B param_type_id of
                     Inl e \<Rightarrow> Inl e
                   | Inr type_byte \<Rightarrow>
                       encode_params ev rest
                         (buf @ pack_s 4 (latin1_encode param_name) @ pack_s 3 size_bytes @ type_byte
                            @ param_encoded_value @ replicate param_padding_size 0,
                          offset + param_size + param_padding_size))))"

fun encode_fields ::
  "('v \<Rightarrow> 'v exn + int \<times> byte list) \<Rightarrow> 'v FieldData list \<Rightarrow> byte list \<times> nat \<Rightarrow>
   'v exn + byte list \<times> nat"
where
  "encode_fields ev [] (buf, offset) = Inr (buf, offset)"
| "encode_fields ev (FieldData field_name field_id params # rest) (buf, offset) =
     (let field_offset = offset
      in case pack_I field_id of
           Inl e \<Rightarrow> Inl e
         | Inr id_bytes \<Rightarrow>
             (case encode_params ev params
                     (buf @ pack_s 4 (latin1_encode field_name) @ pack_s 3 [0, 0, 0] @ pack_s 1 [0]
                        @ id_bytes,
                      offset + 12) of
                Inl e \<Rightarrow> Inl e
              | Inr (buf', offset') \<Rightarrow>
                  (case to_bytes 3 ((offset' - field_offset) div 4) of
                     Inl e \<Rightarrow> Inl e
                   | Inr size_bytes \<Rightarrow>
                       encode_fields ev rest
                         (slice_assign buf' (field_offset + 4) (field_offset + 7) (take 3 size_bytes),
                          offset'))))"

definition encode_packet ::
  "('v \<Rightarrow> 'v exn + int \<times> byte list) \<Rightarrow> ('t \<Rightarrow> int \<times> int) \<Rightarrow>
   string \<Rightarrow> int \<Rightarrow> 't \<Rightarrow> byte list \<Rightarrow> 'v FieldData list \<Rightarrow> 'v exn + byte list"
where
  "encode_packet ev dtu packet_type packet_id timestamp info fields =
     (case dtu timestamp of (timestamp_unix, timestamp_nano) \<Rightarrow>
      case pack_I 0 of Inl e \<Rightarrow> Inl e | Inr size_placeholder \<Rightarrow>
      case pack_I packet_id of Inl e \<Rightarrow> Inl e | Inr id_bytes \<Rightarrow>
      case pack_I timestamp_unix of Inl e \<Rightarrow> Inl e | Inr unix_bytes \<Rightarrow>
      case pack_I timestamp_nano of Inl e \<Rightarrow> Inl e | Inr nano_bytes \<Rightarrow>
      (let buf = packet_header_magic @ pack_s 4 (latin1_encode packet_type) @ size_placeholder
                   @ id_bytes @ pack_s 4 [0x01, 0x00, 0x00, 0x00] @ unix_bytes @ nano_bytes
                   @ pack_s 4 info
       in case encode_fields ev fields (buf, 32) of
            Inl e \<Rightarrow> Inl e
          | Inr (buf', offset) \<Rightarrow>
              (let buf'' = buf' @ packet_footer_bytes
               in case to_bytes 4 ((offset + 8) div 4) of
                    Inl e \<Rightarrow> Inl e
                  | Inr size_bytes \<Rightarrow> Inr (slice_assign buf'' 8 12 size_bytes))))"

subsection \<open>decode_packet_cps and decode_packet\<close>

text \<open>
  \<open>decode_packet_body\<close> is the closure that decode_packet_cps returns: its first
  arguments are the variables it captures.
\<close>

definition decode_packet_body ::
  "(int \<Rightarrow> byte list \<Rightarrow> 'v exn + 'v) \<Rightarrow> string \<Rightarrow> int \<Rightarrow> 't \<Rightarrow> byte list \<Rightarrow> int \<Rightarrow> byte list \<Rightarrow>
   ('v exn list \<times> ('v exn + ('v, 't) PacketData)) option"
where
  "decode_packet_body dv packet_type packet_id timestamp info size_remaining body_buf =
     (if int (length body_buf) > size_remaining then
        Some ([], Inl (raise (new_DecodeError
          [AFormat ''Packet body overflow by {} bytes''
             [AInt (int (length body_buf) - size_remaining)]])))
      else
        (case decode_fields dv body_buf 0 (size_remaining - 8) [] [] of
           None \<Rightarrow> None
         | Some (ws, Inl e) \<Rightarrow> Some (ws, Inl e)
         | Some (ws, Inr fields) \<Rightarrow>
             (case unpack_from 8 body_buf (size_remaining - 8) of
                Inl e \<Rightarrow> Some (ws, Inl e)
              | Inr ftr \<Rightarrow>
                  (let checksum = take 4 ftr; footer = drop 4 ftr
                   in if footer \<noteq> packet_footer_magic then
                        Some (ws, Inl (raise (new_DecodeError
                          [AFormat ''Invalid packet footer {}'' [ABytes footer]])))
                      else Some (ws, Inr (PacketData packet_type packet_id timestamp info fields))))))"

definition decode_packet_cps ::
  "(int \<Rightarrow> byte list \<Rightarrow> 'v exn + 'v) \<Rightarrow> (int \<Rightarrow> int \<Rightarrow> 't) \<Rightarrow> byte list \<Rightarrow>
   'v exn + int \<times> (byte list \<Rightarrow> ('v exn list \<times> ('v exn + ('v, 't) PacketData)) option)"
where
  "decode_packet_cps dv utd header_buf =
     (case unpack 32 header_buf of
        Inl e \<Rightarrow> Inl e
      | Inr h \<Rightarrow>
          (let header = take 4 h;
               packet_type = take 4 (drop 4 h);
               size_words = int (from_bytes (take 4 (drop 8 h)));
               packet_id = int (from_bytes (take 4 (drop 12 h)));
               format_id = take 4 (drop 16 h);
               time = int (from_bytes (take 4 (drop 20 h)));
               nanotime = int (from_bytes (take 4 (drop 24 h)));
               info = take 4 (drop 28 h);
               packet_type = decode_identifier packet_type;
               size = size_words * 4
           in if header \<noteq> packet_header_magic then
                Inl (raise (new_DecodeError [AFormat ''Invalid packet header {}'' [ABytes header]]))
              else
                (let timestamp = utd time nanotime;
                     size_remaining = size - 32
                 in Inr (size_remaining,
                         decode_packet_body dv packet_type packet_id timestamp info size_remaining))))"

definition decode_packet ::
  "(int \<Rightarrow> byte list \<Rightarrow> 'v exn + 'v) \<Rightarrow> (int \<Rightarrow> int \<Rightarrow> 't) \<Rightarrow> byte list \<Rightarrow>
   ('v exn list \<times> ('v exn + ('v, 't) PacketData)) option"
where
  "decode_packet dv utd buf =
     (case decode_packet_cps dv utd (py_slice buf 0 32) of
        Inl e \<Rightarrow> Some ([], Inl e)
      | Inr (body_size, decode_body) \<Rightarrow> decode_body (py_slice buf 32 (length buf)))"

section \<open>The client (client.py)\<close>

subsection \<open>The id counter and send\<close>

text \<open>
  The part of a \<open>Client\<close> that \<open>send\<close> touches: the counter \<open>_id_gen\<close> and the
  writer. \<open>write_packet\<close> (streams.py) is not part of the sources; the writer is
  modelled as the log of the calls of \<open>write_packet\<close>, each with the packet type, the
  packet id and the fields it was given.
\<close>

record 'v client =
  id_gen :: int
  writer :: "(string \<times> int \<times> 'v FieldData list) list"

text \<open>\<open>Client.__init__\<close>: the counter starts at 0.\<close>

definition new_client :: "'v client" where
  "new_client = \<lparr>id_gen = 0, writer = []\<rparr>"

text \<open>\<open>_gen_id\<close>: increment the counter and return it.\<close>

definition gen_id :: "'v client \<Rightarrow> int \<times> 'v client" where
  "gen_id c = (id_gen c + 1, c\<lparr>id_gen := id_gen c + 1\<rparr>)"

text \<open>The list comprehension of \<open>send\<close>: one \<open>Field\<close> per item, each with a fresh id.\<close>

fun make_fields :: "(string \<times> (string \<times> 'v) list) list \<Rightarrow> 'v client \<Rightarrow> 'v FieldData list \<times> 'v client" where
  "make_fields [] c = ([], c)"
| "make_fields ((field_name, params) # rest) c =
     (case gen_id c of (i, c') \<Rightarrow>
        (case make_fields rest c' of (fs, c'') \<Rightarrow> (FieldData field_name i params # fs, c'')))"

text \<open>
  \<open>send\<close> on the items \<open>fields.items()\<close>: the fields get their ids, then the packet id is drawn and the packet
  written. The result is the \<open>ClientResponse\<close>: the packet type and the lookup of
  field ids by field name.
\<close>

definition send ::
  "string \<Rightarrow> (string \<times> (string \<times> 'v) list) list \<Rightarrow> 'v client \<Rightarrow>
   (string \<times> (string \<times> int) list) \<times> 'v client"
where
  "send packet_type field_items c =
     (case make_fields field_items c of (fs, c1) \<Rightarrow>
        (case gen_id c1 of (packet_id, c2) \<Rightarrow>
           ((packet_type, map (\<lambda>f. (fd_name f, fd_id f)) fs),
            c2\<lparr>writer := writer c2 @ [(packet_type, packet_id, fs)]\<rparr>)))"

text \<open>A sequence of \<open>send\<close> calls on one connection.\<close>

fun run_sends :: "(string \<times> (string \<times> (string \<times> 'v) list) list) list \<Rightarrow> 'v client \<Rightarrow> 'v client" where
  "run_sends [] c = c"
| "run_sends ((packet_type, field_items) # rest) c =
     run_sends rest (snd (send packet_type field_items c))"

text \<open>The ids one written packet carries, in the order they were drawn: the field
  ids, then the packet id.\<close>

definition packet_ids :: "string \<times> int \<times> 'v FieldData list \<Rightarrow> int list" where
  "packet_ids w = (case w of (packet_type, packet_id, fs) \<Rightarrow> map fd_id fs @ [packet_id])"

definition ids_handed_out :: "'v client \<Rightarrow> int list" where
  "ids_handed_out c = concat (map packet_ids (writer c))"

text \<open>In a written packet, every field id is below the packet id.\<close>

definition packet_id_last :: "string \<times> int \<times> 'v FieldData list \<Rightarrow> bool" where
  "packet_id_last w = (case w of (packet_type, packet_id, fs) \<Rightarrow> list_all (\<lambda>f. fd_id f < packet_id) fs)"

subsection \<open>The reader task and its waiters\<close>

text \<open>A waiter is an \<open>asyncio.Future\<close>: pending, or done with a packet or an exception.\<close>

datatype ('v, 't) future = Pending | Result "('v, 't) PacketData" | Exception "'v exn"

fun is_done :: "('v, 't) future \<Rightarrow> bool" where
  "is_done Pending = False"
| "is_done (Result p) = True"
| "is_done (Exception e) = True"

text \<open>What \<open>yield from read_packet(self._reader)\<close> can do inside the reader: return
  a packet, raise \<open>CancelledError\<close>, or raise another exception.\<close>

datatype ('v, 't) read_result =
    ReadPacket "('v, 't) PacketData"
  | ReadCancelled
  | ReadException "'v exn"

datatype reader_state = Looping | Exited

text \<open>
  One pass through the body of \<open>while True\<close> in \<open>_run_reader\<close>, on the set of waiters
  (a list): a packet resolves every waiter that is not done, \<open>CancelledError\<close> is
  raised again and ends the task, any other exception is set on every waiter that is not
  done and the loop goes on.
\<close>

definition reader_iteration ::
  "('v, 't) read_result \<Rightarrow> ('v, 't) future list \<Rightarrow> ('v, 't) future list \<times> reader_state"
where
  "reader_iteration r waiters =
     (case r of
        ReadPacket packet \<Rightarrow> (map (\<lambda>w. if is_done w then w else Result packet) waiters, Looping)
      | ReadCancelled \<Rightarrow> (waiters, Exited)
      | ReadException ex \<Rightarrow> (map (\<lambda>w. if is_done w then w else Exception ex) waiters, Looping))"

text \<open>
  \<open>_run_reader\<close> on the results of its successive reads, with no caller running in
  between: the waiters at the end, whether the task has exited, and how many reads it
  made.
\<close>

fun run_reader ::
  "('v, 't) read_result list \<Rightarrow> ('v, 't) future list \<Rightarrow> nat \<Rightarrow>
   ('v, 't) future list \<times> reader_state \<times> nat"
where
  "run_reader [] waiters n = (waiters, Looping, n)"
| "run_reader (r # rs) waiters n =
     (case reader_iteration r waiters of
        (waiters', Exited) \<Rightarrow> (waiters', Exited, Suc n)
      | (waiters', Looping) \<Rightarrow> run_reader rs waiters' (Suc n))"

subsection \<open>recv_field and the auto-handlers\<close>

record config =
  auto_erro :: bool
  auto_warn :: bool
  auto_ackn :: bool

text \<open>\<open>params.get(key, None)\<close> as a constructor argument, and \<open>x is not None\<close>. A
  param value of the codec is never \<open>None\<close>.\<close>

definition params_get :: "(string \<times> 'v) list \<Rightarrow> string \<Rightarrow> 'v pyarg" where
  "params_get params key = (case map_of params key of None \<Rightarrow> ANone | Some v \<Rightarrow> AVal v)"

fun is_not_None :: "'v pyarg \<Rightarrow> bool" where
  "is_not_None ANone = False"
| "is_not_None a = True"

text \<open>\<open>_handle_erro\<close>: raises, or returns \<open>None\<close> (false).\<close>

definition handle_erro :: "string \<Rightarrow> 'v FieldData \<Rightarrow> 'v exn + bool" where
  "handle_erro packet_type field =
     (let error_message = params_get (fd_params field) ''ERRO'';
          error_code = params_get (fd_params field) ''ERRC''
      in if is_not_None error_message \<or> is_not_None error_code then
           Inl (raise (new_CommandError
             [AStr packet_type, AStr (fd_name field), AInt (fd_id field), error_message, error_code]))
         else Inr False)"

text \<open>\<open>_handle_warn\<close>: may emit a warning; returns \<open>True\<close> for a field named WARN,
  \<open>None\<close> (false) otherwise.\<close>

definition handle_warn :: "string \<Rightarrow> 'v FieldData \<Rightarrow> 'v exn list \<Rightarrow> 'v exn + 'v exn list \<times> bool" where
  "handle_warn packet_type field ws =
     (let warning_message = params_get (fd_params field) ''WARN'';
          warning_code = params_get (fd_params field) ''WARC''
      in case (if is_not_None warning_message \<or> is_not_None warning_code then
                 warn (new_CommandWarning
                   [AStr packet_type, AStr (fd_name field), AInt (fd_id field),
                    warning_message, warning_code]) ws
               else Inr ws) of
           Inl e \<Rightarrow> Inl e
         | Inr ws' \<Rightarrow> Inr (ws', fd_name field = ''WARN''))"

text \<open>\<open>_handle_ackn\<close>\<close>

definition handle_ackn :: "string \<Rightarrow> 'v FieldData \<Rightarrow> bool" where
  "handle_ackn packet_type field =
     (let ackn = params_get (fd_params field) ''ACKN'' in is_not_None ackn)"

text \<open>
  What one delivered packet does to a caller inside \<open>recv_field\<close>: the call returns
  params, raises, or goes back to waiting for the next packet.
\<close>

datatype 'v outcome = Returned "(string \<times> 'v) list" | Raised "'v exn" | Waiting

text \<open>The \<open>for field in packet.fields\<close> loop of \<open>recv_field\<close>, with the warnings
  emitted so far.\<close>

fun recv_field_fields ::
  "config \<Rightarrow> string \<Rightarrow> string \<Rightarrow> int option \<Rightarrow> 'v FieldData list \<Rightarrow> 'v exn list \<Rightarrow>
   'v exn list \<times> 'v outcome"
where
  "recv_field_fields cfg packet_type field_name field_id [] ws = (ws, Waiting)"
| "recv_field_fields cfg packet_type field_name field_id (field # rest) ws =
     (if fd_name field = field_name \<and> (case field_id of None \<Rightarrow> True | Some i \<Rightarrow> fd_id field = i) then
        (case (if auto_erro cfg then handle_erro packet_type field else Inr False) of
           Inl e \<Rightarrow> (ws, Raised e)
         | Inr skip_erro \<Rightarrow>
             if skip_erro then recv_field_fields cfg packet_type field_name field_id rest ws
             else
               (case (if auto_warn cfg then handle_warn packet_type field ws else Inr (ws, False)) of
                  Inl e \<Rightarrow> (ws, Raised e)
                | Inr (ws', skip_warn) \<Rightarrow>
                    if skip_warn then recv_field_fields cfg packet_type field_name field_id rest ws'
                    else if auto_ackn cfg \<and> handle_ackn packet_type field then
                      recv_field_fields cfg packet_type field_name field_id rest ws'
                    else (ws', Returned (fd_params field))))
      else recv_field_fields cfg packet_type field_name field_id rest ws)"

text \<open>
  \<open>recv_field\<close> on the results of its successive waiters: each waiter is resolved
  with a packet or with an exception, which \<open>yield from waiter\<close> raises. When the
  results run out the call is still waiting.
\<close>

fun recv_field ::
  "config \<Rightarrow> string \<Rightarrow> string \<Rightarrow> int option \<Rightarrow> ('v exn + ('v, 't) PacketData) list \<Rightarrow> 'v exn list \<Rightarrow>
   'v exn list \<times> 'v outcome"
where
  "recv_field cfg packet_type field_name field_id [] ws = (ws, Waiting)"
| "recv_field cfg packet_type field_name field_id (Inl ex # rest) ws = (ws, Raised ex)"
| "recv_field cfg packet_type field_name field_id (Inr packet # rest) ws =
     (if pd_type packet = packet_type then
        (case recv_field_fields cfg packet_type field_name field_id (pd_fields packet) ws of
           (ws', Waiting) \<Rightarrow> recv_field cfg packet_type field_name field_id rest ws'
         | (ws', Returned params) \<Rightarrow> (ws', Returned params)
         | (ws', Raised e) \<Rightarrow> (ws', Raised e))
      else recv_field cfg packet_type field_name field_id rest ws)"

text \<open>
  A caller suspended in \<open>_wait_for_packet\<close> resumes when its waiter is done; a waiter
  that is still pending leaves it waiting.
\<close>

definition resume ::
  "config \<Rightarrow> string \<times> string \<times> int option \<Rightarrow> ('v, 't) future \<Rightarrow> 'v outcome"
where
  "resume cfg caller w =
     (case caller of (packet_type, field_name, field_id) \<Rightarrow>
        snd (recv_field cfg packet_type field_name field_id
               (case w of Pending \<Rightarrow> [] | Result packet \<Rightarrow> [Inr packet] | Exception ex \<Rightarrow> [Inl ex])
               []))"

text \<open>
  One packet arriving while the callers \<open>callers\<close> are all suspended in
  \<open>recv_field\<close>, each with one pending waiter registered: the reader resolves the
  waiters, then every caller resumes. The result lists what each caller does.
\<close>

definition fan_out ::
  "config \<Rightarrow> (string \<times> string \<times> int option) list \<Rightarrow> ('v, 't) PacketData \<Rightarrow> 'v outcome list"
where
  "fan_out cfg callers packet =
     map2 (resume cfg) callers
       (fst (reader_iteration (ReadPacket packet) (map (\<lambda>c. Pending) callers)))"

fun is_Returned :: "'v outcome \<Rightarrow> bool" where
  "is_Returned (Returned params) = True"
| "is_Returned r = False"

subsection \<open>Notions used to state the properties of recv_field\<close>

text \<open>Python values that stand for param values in the examples: \<open>int\<close>, \<open>str\<close>
  and \<open>bytes\<close>.\<close>

datatype pyvalue = PInt int | PStr string | PBytes "byte list"

text \<open>The test of \<open>recv_field\<close> on a field: its name is the awaited one, and its id
  when one is given.\<close>

definition field_matches :: "string \<Rightarrow> int option \<Rightarrow> 'v FieldData \<Rightarrow> bool" where
  "field_matches field_name field_id field =
     (fd_name field = field_name \<and> (case field_id of None \<Rightarrow> True | Some i \<Rightarrow> fd_id field = i))"

definition has_param :: "'v FieldData \<Rightarrow> string \<Rightarrow> bool" where
  "has_param field key = is_not_None (params_get (fd_params field) key)"

text \<open>The five arguments that \<open>_handle_erro\<close> and \<open>_handle_warn\<close> pass to
  \<open>CommandError\<close> and \<open>CommandWarning\<close>.\<close>

definition command_args :: "string \<Rightarrow> 'v FieldData \<Rightarrow> string \<Rightarrow> string \<Rightarrow> 'v pyarg list" where
  "command_args packet_type field message_key code_key =
     [AStr packet_type, AStr (fd_name field), AInt (fd_id field),
      params_get (fd_params field) message_key, params_get (fd_params field) code_key]"

text \<open>The warnings a field makes the warn handler emit: one \<open>CommandWarning\<close> when
  auto_warn is on and the params contain WARN or WARC.\<close>

definition emitted_warnings :: "config \<Rightarrow> string \<Rightarrow> 'v FieldData \<Rightarrow> 'v exn list" where
  "emitted_warnings cfg packet_type field =
     (if auto_warn cfg \<and> (has_param field ''WARN'' \<or> has_param field ''WARC'') then
        [Instance CommandWarning (command_args packet_type field ''WARN'' ''WARC'')
           [(''packet_type'', AStr packet_type), (''field_name'', AStr (fd_name field)),
            (''field_id'', AInt (fd_id field)),
            (''message'', params_get (fd_params field) ''WARN''),
            (''code'', params_get (fd_params field) ''WARC'')]]
      else [])"

text \<open>No enabled auto-handler intercepts the field.\<close>

definition unfiltered :: "config \<Rightarrow> 'v FieldData \<Rightarrow> bool" where
  "unfiltered cfg field =
     (\<not> (auto_erro cfg \<and> (has_param field ''ERRO'' \<or> has_param field ''ERRC''))
      \<and> \<not> (auto_warn cfg \<and> fd_name field = ''WARN'')
      \<and> \<not> (auto_ackn cfg \<and> has_param field ''ACKN''))"

text \<open>The invariant of the id counter: the ids handed out so far are strictly
  increasing and at most the counter, and every packet id comes after its field ids.\<close>

definition ids_inv :: "'v client \<Rightarrow> bool" where
  "ids_inv c =
     (sorted_wrt (<) (ids_handed_out c) \<and> list_all (\<lambda>i. i \<le> id_gen c) (ids_handed_out c)
      \<and> list_all packet_id_last (writer c))"

section \<open>The wire layout of a packet\<close>

text \<open>
  An identifier as the decoder returns it: trailing spaces and NULs removed, which is
  what \<open>decode_identifier\<close> does to the bytes of a name.
\<close>

definition normalise_identifier :: "string \<Rightarrow> string" where
  "normalise_identifier s = rev (dropWhile (\<lambda>c. c = CHR '' '' \<or> c = CHR 0x00) (rev s))"

text \<open>
  The encoder's \<open>-size % 4\<close>: the number of padding bytes after \<open>size\<close> bytes.
\<close>

definition pad_len :: "nat \<Rightarrow> nat" where
  "pad_len n = nat (- int n mod 4)"

text \<open>
  The pair (type tag, payload) that \<open>encode_value\<close> returns for a value it accepts.
\<close>

definition encoded :: "('v \<Rightarrow> 'v exn + int \<times> byte list) \<Rightarrow> 'v \<Rightarrow> int \<times> byte list" where
  "encoded ev v = (case ev v of Inl e \<Rightarrow> (0, []) | Inr r \<Rightarrow> r)"

text \<open>
  The size in bytes of one encoded param: 8 bytes of header, the payload, the padding.
\<close>

definition param_size :: "('v \<Rightarrow> 'v exn + int \<times> byte list) \<Rightarrow> string \<times> 'v \<Rightarrow> nat" where
  "param_size ev p = (let n = 8 + length (snd (encoded ev (snd p))) in n + pad_len n)"

text \<open>
  The bytes that \<open>encode_params\<close> writes for one param: the name, the size in words on
  3 bytes, the type tag, the payload, the padding.
\<close>

definition param_bytes :: "('v \<Rightarrow> 'v exn + int \<times> byte list) \<Rightarrow> string \<times> 'v \<Rightarrow> byte list" where
  "param_bytes ev p =
     pack_s 4 (latin1_encode (fst p)) @ to_le 3 (param_size ev p div 4)
       @ [of_int (fst (encoded ev (snd p)))]
       @ snd (encoded ev (snd p)) @ replicate (pad_len (8 + length (snd (encoded ev (snd p))))) 0"

text \<open>
  What stands at a param boundary within a field: a param, or the 8 bytes of a packet
  footer (the embedded footer that \<open>decode_fields\<close> tolerates).
\<close>

datatype 'v wire_item = WParam string 'v | WFooter

fun item_bytes :: "('v \<Rightarrow> 'v exn + int \<times> byte list) \<Rightarrow> 'v wire_item \<Rightarrow> byte list" where
  "item_bytes ev (WParam n v) = param_bytes ev (n, v)"
| "item_bytes ev WFooter = packet_footer_bytes"

definition items_bytes :: "('v \<Rightarrow> 'v exn + int \<times> byte list) \<Rightarrow> 'v wire_item list \<Rightarrow> byte list" where
  "items_bytes ev items = concat (map (item_bytes ev) items)"

text \<open>
  A field on the wire: the name, the size in words on 3 bytes, a zero type byte, the
  field id, then the items of the field.
\<close>

definition wire_field ::
  "('v \<Rightarrow> 'v exn + int \<times> byte list) \<Rightarrow> string \<Rightarrow> int \<Rightarrow> 'v wire_item list \<Rightarrow> byte list" where
  "wire_field ev field_name field_id items =
     pack_s 4 (latin1_encode field_name) @ to_le 3 ((12 + length (items_bytes ev items)) div 4)
       @ [0] @ to_le 4 (nat field_id) @ items_bytes ev items"

definition params_items :: "(string \<times> 'v) list \<Rightarrow> 'v wire_item list" where
  "params_items params = map (\<lambda>p. WParam (fst p) (snd p)) params"

definition field_bytes :: "('v \<Rightarrow> 'v exn + int \<times> byte list) \<Rightarrow> 'v FieldData \<Rightarrow> byte list" where
  "field_bytes ev f = wire_field ev (fd_name f) (fd_id f) (params_items (fd_params f))"

text \<open>
  The size in bytes of one encoded field: 12 bytes of header and its params.
\<close>

definition field_size :: "('v \<Rightarrow> 'v exn + int \<times> byte list) \<Rightarrow> 'v FieldData \<Rightarrow> nat" where
  "field_size ev f = 12 + sum_list (map (param_size ev) (fd_params f))"

text \<open>
  The conditions under which the \<open>struct.pack\<close> and \<open>to_bytes\<close> calls of the encoder
  succeed for a param, a field and a packet.
\<close>

definition enc_param_ok :: "('v \<Rightarrow> 'v exn + int \<times> byte list) \<Rightarrow> string \<times> 'v \<Rightarrow> bool" where
  "enc_param_ok ev p =
     (case ev (snd p) of
        Inl e \<Rightarrow> False
      | Inr r \<Rightarrow> 0 \<le> fst r \<and> fst r < 256 \<and> param_size ev p div 4 < 256 ^ 3)"

definition enc_field_ok :: "('v \<Rightarrow> 'v exn + int \<times> byte list) \<Rightarrow> 'v FieldData \<Rightarrow> bool" where
  "enc_field_ok ev f =
     (0 \<le> fd_id f \<and> fd_id f < 2 ^ 32 \<and> list_all (enc_param_ok ev) (fd_params f)
      \<and> field_size ev f div 4 < 256 ^ 3)"

text \<open>
  A packet on the wire, with any format tag and any checksum: the header of 32 bytes
  with the total size in words, the body, the checksum, the footer magic.
\<close>

definition wire_header ::
  "string \<Rightarrow> nat \<Rightarrow> int \<Rightarrow> byte list \<Rightarrow> int \<Rightarrow> int \<Rightarrow> byte list \<Rightarrow> byte list" where
  "wire_header packet_type size_words packet_id format_tag unix nano info =
     packet_header_magic @ pack_s 4 (latin1_encode packet_type) @ to_le 4 size_words
       @ to_le 4 (nat packet_id) @ format_tag @ to_le 4 (nat unix) @ to_le 4 (nat nano)
       @ pack_s 4 info"

definition wire_packet ::
  "string \<Rightarrow> int \<Rightarrow> byte list \<Rightarrow> int \<Rightarrow> int \<Rightarrow> byte list \<Rightarrow> byte list \<Rightarrow> byte list \<Rightarrow> byte list" where
  "wire_packet packet_type packet_id format_tag unix nano info body checksum =
     wire_header packet_type ((40 + length body) div 4) packet_id format_tag unix nano info
       @ body @ checksum @ packet_footer_magic"

definition enc_packet_ok ::
  "('v \<Rightarrow> 'v exn + int \<times> byte list) \<Rightarrow> int \<Rightarrow> int \<Rightarrow> int \<Rightarrow> 'v FieldData list \<Rightarrow> bool" where
  "enc_packet_ok ev packet_id unix nano fs =
     (0 \<le> packet_id \<and> packet_id < 2 ^ 32 \<and> 0 \<le> unix \<and> unix < 2 ^ 32 \<and> 0 \<le> nano \<and> nano < 2 ^ 32
      \<and> list_all (enc_field_ok ev) fs
      \<and> (40 + length (concat (map (field_bytes ev) fs))) div 4 < 256 ^ 4)"

text \<open>
  A legal param: a name of at most 4 characters, and a value that the codec reads back
  from its payload followed by the padding. The decoder hands the payload and the
  padding to \<open>decode_value\<close>. The type tag is not 0xDD, the last byte of a footer.
\<close>

definition legal_param ::
  "('v \<Rightarrow> 'v exn + int \<times> byte list) \<Rightarrow> (int \<Rightarrow> byte list \<Rightarrow> 'v exn + 'v) \<Rightarrow> string \<times> 'v \<Rightarrow> bool" where
  "legal_param ev dv p =
     (length (fst p) \<le> 4 \<and> fst (encoded ev (snd p)) \<noteq> 0xDD
      \<and> dv (fst (encoded ev (snd p)))
            (snd (encoded ev (snd p)) @ replicate (pad_len (8 + length (snd (encoded ev (snd p))))) 0)
          = Inr (snd p))"

text \<open>
  The warning of \<open>decode_fields\<close> at an embedded footer.
\<close>

definition footer_warning :: "'v exn" where
  "footer_warning = Instance DecodeWarning [AStr ''Encountered embedded packet footer bug''] []"

text \<open>
  An item that decodes: a legal param that the encoder accepts, or a footer. A param is
  stored in the \<open>OrderedDict\<close> under its normalised name, a footer leaves the params as
  they are and emits the warning.
\<close>

fun item_ok ::
  "('v \<Rightarrow> 'v exn + int \<times> byte list) \<Rightarrow> (int \<Rightarrow> byte list \<Rightarrow> 'v exn + 'v) \<Rightarrow> 'v wire_item \<Rightarrow> bool" where
  "item_ok ev dv (WParam n v) = (enc_param_ok ev (n, v) \<and> legal_param ev dv (n, v))"
| "item_ok ev dv WFooter = True"

fun add_item :: "(string \<times> 'v) list \<Rightarrow> 'v wire_item \<Rightarrow> (string \<times> 'v) list" where
  "add_item params (WParam n v) = od_setitem (normalise_identifier n) v params"
| "add_item params WFooter = params"

fun item_warnings :: "'v wire_item \<Rightarrow> 'v exn list" where
  "item_warnings (WParam n v) = []"
| "item_warnings WFooter = [footer_warning]"

text \<open>
  A field given by its name, its id and its items, its bytes, the conditions under
  which it decodes, and what the decoder returns for it.
\<close>

type_synonym 'v wire_field_data = "string \<times> int \<times> 'v wire_item list"

definition wfield_bytes :: "('v \<Rightarrow> 'v exn + int \<times> byte list) \<Rightarrow> 'v wire_field_data \<Rightarrow> byte list" where
  "wfield_bytes ev wfd = (case wfd of (n, i, items) \<Rightarrow> wire_field ev n i items)"

definition wfield_ok ::
  "('v \<Rightarrow> 'v exn + int \<times> byte list) \<Rightarrow> (int \<Rightarrow> byte list \<Rightarrow> 'v exn + 'v) \<Rightarrow> 'v wire_field_data \<Rightarrow> bool" where
  "wfield_ok ev dv wfd =
     (case wfd of (n, i, items) \<Rightarrow>
        length n \<le> 4 \<and> 0 \<le> i \<and> i < 2 ^ 32 \<and> list_all (item_ok ev dv) items
        \<and> (12 + length (items_bytes ev items)) div 4 < 256 ^ 3)"

definition wfield_decoded :: "'v wire_field_data \<Rightarrow> 'v FieldData" where
  "wfield_decoded wfd = (case wfd of (n, i, items) \<Rightarrow>
     FieldData (normalise_identifier n) i (foldl add_item [] items))"

definition wfield_warnings :: "'v wire_field_data \<Rightarrow> 'v exn list" where
  "wfield_warnings wfd = (case wfd of (n, i, items) \<Rightarrow> concat (map item_warnings items))"

text \<open>
  A legal field: a name of at most 4 characters and legal params.
\<close>

definition legal_field ::
  "('v \<Rightarrow> 'v exn + int \<times> byte list) \<Rightarrow> (int \<Rightarrow> byte list \<Rightarrow> 'v exn + 'v) \<Rightarrow> 'v FieldData \<Rightarrow> bool" where
  "legal_field ev dv f = (length (fd_name f) \<le> 4 \<and> list_all (legal_param ev dv) (fd_params f))"

text \<open>
  What a round trip does to a field: the names lose their padding, and the params are
  collected in an \<open>OrderedDict\<close>, so a name that occurs twice keeps its first position
  and its last value.
\<close>

definition normalise_params :: "(string \<times> 'v) list \<Rightarrow> (string \<times> 'v) list" where
  "normalise_params ps = foldl (\<lambda>d p. od_setitem (normalise_identifier (fst p)) (snd p) d) [] ps"

definition normalise_field :: "'v FieldData \<Rightarrow> 'v FieldData" where
  "normalise_field f =
     FieldData (normalise_identifier (fd_name f)) (fd_id f) (normalise_params (fd_params f))"

text \<open>
  The field of a packet as a field of the wire layout.
\<close>

definition to_wfield :: "'v FieldData \<Rightarrow> 'v wire_field_data" where
  "to_wfield f = (fd_name f, fd_id f, params_items (fd_params f))"

text \<open>
  Modelled from the spec: a value codec for the examples, after the table of value types
  of the spec (signed and unsigned 32-bit integers as 4 bytes little-endian, strings as
  their Latin-1 bytes, raw bytes). values.py is not part of the sources, and the numbers
  of the type tags are placeholders. The properties are proved for every codec; this
  one only instantiates them.
\<close>

definition spec_encode_value :: "pyvalue \<Rightarrow> pyvalue exn + int \<times> byte list" where
  "spec_encode_value v =
     (case v of
        PInt x \<Rightarrow>
          (if x < 0 then
             (if - (2 ^ 31) \<le> x then Inr (0, to_le 4 (nat (x + 2 ^ 32))) else Inl OverflowError)
           else if x < 2 ^ 32 then Inr (1, to_le 4 (nat x)) else Inl OverflowError)
      | PStr s \<Rightarrow> Inr (2, latin1_encode s)
      | PBytes b \<Rightarrow> Inr (3, b))"

definition spec_decode_value :: "int \<Rightarrow> byte list \<Rightarrow> pyvalue exn + pyvalue" where
  "spec_decode_value tag payload =
     (if tag = 0 then
        Inr (PInt (if from_bytes payload < 2 ^ 31 then int (from_bytes payload)
                   else int (from_bytes payload) - 2 ^ 32))
      else if tag = 1 then Inr (PInt (int (from_bytes payload)))
      else if tag = 2 then Inr (PStr (latin1_decode payload))
      else if tag = 3 then Inr (PBytes payload)
      else Inl (raise (new_DecodeError [AStr ''UnknownParamType''])))"

text \<open>
  The example: the packet of type \<open>TEST\<close>, id 1, timestamp (0, 0) and info \<open>0000\<close> with
  one field \<open>ECHO\<close> of id 7, and its 76 bytes.
\<close>

definition example_fields :: "pyvalue FieldData list" where
  "example_fields = [FieldData ''ECHO'' 7 [(''VALU'', PInt 42), (''T '', PStr ''abcd'')]]"

definition example_packet :: "byte list" where
  "example_packet =
     [221, 204, 187, 170, 84, 69, 83, 84, 19, 0, 0, 0, 1, 0, 0, 0, 1, 0, 0, 0,
      0, 0, 0, 0, 0, 0, 0, 0, 48, 48, 48, 48,
      69, 67, 72, 79, 9, 0, 0, 0, 7, 0, 0, 0,
      86, 65, 76, 85, 3, 0, 0, 1, 42, 0, 0, 0,
      84, 32, 0, 0, 3, 0, 0, 2, 97, 98, 99, 100,
      0, 0, 0, 0, 170, 187, 204, 221]"

text \<open>
  The offset of the \<open>i\<close>-th field of an encoded packet, and of the \<open>j\<close>-th param of
  that field.
\<close>

definition field_offset :: "('v \<Rightarrow> 'v exn + int \<times> byte list) \<Rightarrow> 'v FieldData list \<Rightarrow> nat \<Rightarrow> nat" where
  "field_offset ev fs i = 32 + sum_list (map (field_size ev) (take i fs))"

definition param_offset ::
  "('v \<Rightarrow> 'v exn + int \<times> byte list) \<Rightarrow> 'v FieldData list \<Rightarrow> nat \<Rightarrow> nat \<Rightarrow> nat" where
  "param_offset ev fs i j =
     field_offset ev fs i + 12 + sum_list (map (param_size ev) (take j (fd_params (fs ! i))))"

text \<open>
  The embedded footer: the bytes of a packet footer inserted at offset \<open>pos\<close> of a
  packet, within the field that starts at \<open>field_start\<close>, with the size word of that
  field and the total size word both raised by 2 words, so that the packet is
  well-formed around the 8 bytes.
\<close>

definition embed_footer :: "byte list \<Rightarrow> nat \<Rightarrow> nat \<Rightarrow> byte list" where
  "embed_footer buf field_start pos =
     (let b1 = take pos buf @ packet_footer_bytes @ drop pos buf;
          field_words = from_bytes (py_slice b1 (field_start + 4) (field_start + 7)) + 2;
          b2 = slice_assign b1 (field_start + 4) (field_start + 7) (to_le 3 field_words);
          total_words = from_bytes (py_slice b2 8 12) + 2
      in slice_assign b2 8 12 (to_le 4 total_words))"

text \<open>
  The items of a field with a footer before its \<open>j\<close>-th param.
\<close>

definition footer_items :: "(string \<times> 'v) list \<Rightarrow> nat \<Rightarrow> 'v wire_item list" where
  "footer_items ps j = params_items (take j ps) @ WFooter # params_items (drop j ps)"


section \<open>Properties of the client\<close>

subsection \<open>The id counter\<close>

lemma make_fields_ids:
  "make_fields items c = (fs, c') \<Longrightarrow>
     map fd_id fs = map (\<lambda>k. id_gen c + 1 + int k) [0..<length items]
     \<and> id_gen c' = id_gen c + int (length items) \<and> writer c' = writer c"
proof (induction items arbitrary: c fs c')
  case Nil
  then show ?case by simp
next
  case (Cons item items)
  obtain field_name params where item: "item = (field_name, params)" by (cases item)
  obtain fs0 c0 where rec: "make_fields items (snd (gen_id c)) = (fs0, c0)" by (cases "make_fields items (snd (gen_id c))")
  from Cons.prems item rec have fs: "fs = FieldData field_name (id_gen c + 1) params # fs0" and c': "c' = c0"
    by (auto simp: gen_id_def split: prod.splits)
  from Cons.IH [OF rec] have ih: "map fd_id fs0 = map (\<lambda>k. id_gen c + 1 + 1 + int k) [0..<length items]"
    "id_gen c0 = id_gen c + 1 + int (length items)" "writer c0 = writer c"
    by (simp_all add: gen_id_def)
  have "map (\<lambda>k. id_gen c + 1 + int k) [0..<length (item # items)]
        = (id_gen c + 1) # map (\<lambda>k. id_gen c + 1 + 1 + int k) [0..<length items]"
    by (simp add: upt_rec [of 0] map_Suc_upt [symmetric] del: upt_Suc) 
  with fs c' ih show ?case by simp
qed

lemma send_inv: "ids_inv c \<Longrightarrow> ids_inv (snd (send packet_type items c))"
proof -
  assume inv: "ids_inv c"
  obtain fs c1 where mf: "make_fields items c = (fs, c1)" by (cases "make_fields items c")
  note m = make_fields_ids [OF mf]
  let ?n = "length items"
  let ?new = "map (\<lambda>k. id_gen c + 1 + int k) [0..<?n] @ [id_gen c + int ?n + 1]"
  have snd_send: "snd (send packet_type items c) =
     c1\<lparr>id_gen := id_gen c + int ?n + 1, writer := writer c @ [(packet_type, id_gen c + int ?n + 1, fs)]\<rparr>"
    using mf m by (simp add: send_def gen_id_def)
  have ids: "ids_handed_out (snd (send packet_type items c)) = ids_handed_out c @ ?new"
    using m by (simp add: snd_send ids_handed_out_def packet_ids_def)
  have s_new: "sorted_wrt (<) ?new"
    by (auto simp: sorted_wrt_append sorted_wrt_map intro!: sorted_wrt_mono_rel [of _ "(<)"])
  have lo: "\<forall>x\<in>set ?new. id_gen c < x" by auto
  have hi: "\<forall>x\<in>set ?new. x \<le> id_gen c + int ?n + 1" by auto
  from inv have a: "sorted_wrt (<) (ids_handed_out c)" and b: "\<forall>i\<in>set (ids_handed_out c). i \<le> id_gen c"
    and c: "list_all packet_id_last (writer c)"
    by (auto simp: ids_inv_def list_all_iff)
  have 1: "sorted_wrt (<) (ids_handed_out c @ ?new)"
    using a b s_new lo by (fastforce simp: sorted_wrt_append)
  have 2: "\<forall>i\<in>set (ids_handed_out c @ ?new). i \<le> id_gen c + int ?n + 1"
    using b hi by auto
  have 3: "packet_id_last (packet_type, id_gen c + int ?n + 1, fs)"
  proof -
    have "\<forall>i\<in>set (map fd_id fs). i < id_gen c + int ?n + 1" using m by auto
    then show ?thesis by (auto simp: packet_id_last_def list_all_iff)
  qed
  show ?thesis
    unfolding ids_inv_def ids using 1 2 3 c by (simp add: snd_send list_all_iff)
qed

lemma run_sends_inv: "ids_inv c \<Longrightarrow> ids_inv (run_sends sends c)"
  by (induction sends arbitrary: c) (auto simp: send_inv)

lemma new_client_inv: "ids_inv new_client"
  by (simp add: ids_inv_def new_client_def ids_handed_out_def)

text \<open>
  C8: within one connection, the ids handed out across all \<open>send\<close> calls (the field
  ids of a packet, then its packet id, packet after packet) are strictly increasing, and
  the id of every packet is drawn from the same counter after the ids of all its fields,
  so it is above each of them.
\<close>

theorem send_ids_strictly_increasing:
  "sorted_wrt (<) (ids_handed_out (run_sends sends new_client))
   \<and> list_all packet_id_last (writer (run_sends sends new_client))"
  using run_sends_inv [OF new_client_inv, of sends] by (simp add: ids_inv_def)

subsection \<open>The reader task\<close>

text \<open>
  C6, as the code has it: when a read raises an exception other than
  \<open>CancelledError\<close>, the reader sets that exception on every waiter that is not done,
  so that every waiter is done afterwards, and goes on with the next read; it exits, and
  leaves the waiters as they are, only when the read raises \<open>CancelledError\<close>.
\<close>

theorem run_reader_read_error:
  "run_reader (ReadException ex # rs) waiters n =
     run_reader rs (map (\<lambda>w. if is_done w then w else Exception ex) waiters) (Suc n)
   \<and> list_all is_done (map (\<lambda>w. if is_done w then w else Exception ex) waiters)
   \<and> run_reader (ReadCancelled # rs) waiters n = (waiters, Exited, Suc n)"
  by (auto simp: reader_iteration_def list_all_iff)

text \<open>
  C6 as stated fails: after a read error the reader has not exited. With one pending
  waiter, a read that raises and then a read that returns a packet, the reader makes both
  reads and is still in its loop.
\<close>

theorem run_reader_counterexample:
  "run_reader [ReadException StructError, ReadPacket (PacketData ''X'' 1 () [] [])]
     [Pending :: (pyvalue, unit) future] 0
   = ([Exception StructError], Looping, 2)"
  by (simp add: reader_iteration_def)

subsection \<open>recv_field and the auto-handlers\<close>

lemma recv_field_fields_skip:
  "list_all (\<lambda>g. \<not> field_matches field_name field_id g) pre \<Longrightarrow>
   recv_field_fields cfg packet_type field_name field_id (pre @ rest) ws =
   recv_field_fields cfg packet_type field_name field_id rest ws"
  by (induction pre) (auto simp: field_matches_def)

lemma handle_warn_eq:
  "auto_warn cfg \<Longrightarrow> handle_warn packet_type field ws =
     Inr (ws @ emitted_warnings cfg packet_type field, fd_name field = ''WARN'')"
  by (simp add: handle_warn_def emitted_warnings_def has_param_def command_args_def Let_def warn_def
      new_CommandWarning_def CommandMixin_init_def)

lemma emitted_no_warn: "\<not> auto_warn cfg \<Longrightarrow> emitted_warnings cfg packet_type field = []"
  by (simp add: emitted_warnings_def)

lemma recv_field_fields_head:
  assumes "field_matches field_name field_id field"
  shows "recv_field_fields cfg packet_type field_name field_id (field # post) ws =
     (if auto_erro cfg \<and> (has_param field ''ERRO'' \<or> has_param field ''ERRC'') then
        (ws, Raised (Instance CommandError (command_args packet_type field ''ERRO'' ''ERRC'') []))
      else if (auto_warn cfg \<and> fd_name field = ''WARN'') \<or> (auto_ackn cfg \<and> has_param field ''ACKN'') then
        recv_field_fields cfg packet_type field_name field_id post
          (ws @ emitted_warnings cfg packet_type field)
      else (ws @ emitted_warnings cfg packet_type field, Returned (fd_params field)))"
proof (cases "auto_warn cfg")
  case True
  with assms show ?thesis
    by (auto simp: field_matches_def handle_erro_def has_param_def command_args_def Let_def
        handle_warn_eq handle_ackn_def raise_def new_CommandError_def)
next
  case False
  with assms show ?thesis
    by (auto simp: field_matches_def handle_erro_def has_param_def command_args_def Let_def
        emitted_no_warn handle_ackn_def raise_def new_CommandError_def)
qed

text \<open>
  C5, as the code has it: when the first field of a delivered packet that matches the
  awaited name (and id) has ERRO or ERRC among its params, then with auto_erro on
  \<open>recv_field\<close> raises the \<open>CommandError\<close> built from the packet type, the field
  name, the field id, the ERRO param and the ERRC param (\<open>None\<close> for an absent one);
  with auto_erro off it returns the params of the field unchanged, provided that neither
  the warn handler (auto_warn on and the field named WARN) nor the ackn handler
  (auto_ackn on and an ACKN param) skips the field.
\<close>

theorem recv_field_erro:
  assumes "pd_type packet = packet_type"
    and "pd_fields packet = pre @ field # post"
    and "list_all (\<lambda>g. \<not> field_matches field_name field_id g) pre"
    and "field_matches field_name field_id field"
    and "has_param field ''ERRO'' \<or> has_param field ''ERRC''"
  shows "(auto_erro cfg \<longrightarrow>
            recv_field cfg packet_type field_name field_id (Inr packet # rest) ws =
              (ws, Raised (Instance CommandError (command_args packet_type field ''ERRO'' ''ERRC'') [])))
       \<and> (\<not> auto_erro cfg \<and> \<not> (auto_warn cfg \<and> fd_name field = ''WARN'')
            \<and> \<not> (auto_ackn cfg \<and> has_param field ''ACKN'') \<longrightarrow>
            recv_field cfg packet_type field_name field_id (Inr packet # rest) ws =
              (ws @ emitted_warnings cfg packet_type field, Returned (fd_params field)))"
proof -
  have F: "recv_field_fields cfg packet_type field_name field_id (pd_fields packet) ws =
           recv_field_fields cfg packet_type field_name field_id (field # post) ws"
    using assms(2,3) by (simp add: recv_field_fields_skip del: recv_field_fields.simps)
  note H = recv_field_fields_head [OF assms(4), of cfg packet_type post ws]
  show ?thesis
    using assms(1,5) by (simp add: F H del: recv_field_fields.simps)
qed

text \<open>The hypotheses of C5 hold for the reply CMD1 with ERRO "bad" and ERRC 400:
  the call raises with auto_erro on and returns the params with auto_erro off.\<close>

theorem recv_field_erro_witness:
  "recv_field \<lparr>auto_erro = True, auto_warn = True, auto_ackn = True\<rparr> ''X'' ''CMD1'' None
     [Inr (PacketData ''X'' 1 () [] [FieldData ''CMD1'' 7 [(''ERRO'', PStr ''bad''), (''ERRC'', PInt 400)]])] []
   = ([], Raised (Instance CommandError
        [AStr ''X'', AStr ''CMD1'', AInt 7, AVal (PStr ''bad''), AVal (PInt 400)] []))
   \<and> recv_field \<lparr>auto_erro = False, auto_warn = True, auto_ackn = True\<rparr> ''X'' ''CMD1'' None
     [Inr (PacketData ''X'' 1 () [] [FieldData ''CMD1'' 7 [(''ERRO'', PStr ''bad''), (''ERRC'', PInt 400)]])] []
   = ([], Returned [(''ERRO'', PStr ''bad''), (''ERRC'', PInt 400)])"
  using recv_field_erro [of "PacketData ''X'' 1 () [] [FieldData ''CMD1'' 7 [(''ERRO'', PStr ''bad''), (''ERRC'', PInt 400)]]"
      "''X''" "[]" "FieldData ''CMD1'' 7 [(''ERRO'', PStr ''bad''), (''ERRC'', PInt 400)]" "[]" "''CMD1''" None
      "\<lparr>auto_erro = True, auto_warn = True, auto_ackn = True\<rparr>" "[]" "[]"]
    recv_field_erro [of "PacketData ''X'' 1 () [] [FieldData ''CMD1'' 7 [(''ERRO'', PStr ''bad''), (''ERRC'', PInt 400)]]"
      "''X''" "[]" "FieldData ''CMD1'' 7 [(''ERRO'', PStr ''bad''), (''ERRC'', PInt 400)]" "[]" "''CMD1''" None
      "\<lparr>auto_erro = False, auto_warn = True, auto_ackn = True\<rparr>" "[]" "[]"]
  by (simp add: field_matches_def has_param_def params_get_def command_args_def emitted_warnings_def
      del: recv_field.simps)

text \<open>
  C5 as stated fails: with auto_erro off and auto_ackn on, a matching field whose params
  contain ERRO and ACKN is skipped by the ackn handler, and the call keeps waiting
  instead of returning the params.
\<close>

theorem recv_field_erro_counterexample:
  "recv_field \<lparr>auto_erro = False, auto_warn = True, auto_ackn = True\<rparr> ''X'' ''CMD1'' None
     [Inr (PacketData ''X'' 1 () [] [FieldData ''CMD1'' 7 [(''ERRO'', PStr ''bad''), (''ACKN'', PInt 1)]])] []
   = ([], Waiting)"
  by (simp add: handle_warn_def handle_ackn_def params_get_def)

text \<open>
  C9, as the code has it: under auto_warn, when \<open>recv_field\<close> reaches the first
  matching field of a packet and the erro handler does not raise on it, a
  \<open>CommandWarning\<close> is emitted exactly when its params contain WARN or WARC; the field
  is then skipped when its own name is WARN, or when auto_ackn is on and it has an ACKN
  param, and the loop goes on with the next fields; every other field is returned to the
  caller after the warning.
\<close>

theorem recv_field_warn:
  assumes "auto_warn cfg"
    and "pd_fields packet = pre @ field # post"
    and "list_all (\<lambda>g. \<not> field_matches field_name field_id g) pre"
    and "field_matches field_name field_id field"
    and "\<not> (auto_erro cfg \<and> (has_param field ''ERRO'' \<or> has_param field ''ERRC''))"
  shows "recv_field_fields cfg packet_type field_name field_id (pd_fields packet) ws =
     (if fd_name field = ''WARN'' \<or> (auto_ackn cfg \<and> has_param field ''ACKN'') then
        recv_field_fields cfg packet_type field_name field_id post
          (ws @ emitted_warnings cfg packet_type field)
      else (ws @ emitted_warnings cfg packet_type field, Returned (fd_params field)))"
proof -
  have F: "recv_field_fields cfg packet_type field_name field_id (pd_fields packet) ws =
           recv_field_fields cfg packet_type field_name field_id (field # post) ws"
    using assms(2,3) by (simp add: recv_field_fields_skip del: recv_field_fields.simps)
  note H = recv_field_fields_head [OF assms(4), of cfg packet_type post ws]
  show ?thesis
    unfolding F H using assms(1,5) by auto
qed

text \<open>The hypotheses of C9 hold for a reply CMD1 with a WARN param, which is
  returned after the warning, and for a field named WARN, which is skipped.\<close>

theorem recv_field_warn_witness:
  "recv_field_fields \<lparr>auto_erro = True, auto_warn = True, auto_ackn = True\<rparr> ''X'' ''CMD1'' None
     [FieldData ''CMD1'' 7 [(''WARN'', PStr ''careful''), (''RSLT'', PInt 1)]] []
   = ([Instance CommandWarning [AStr ''X'', AStr ''CMD1'', AInt 7, AVal (PStr ''careful''), ANone]
         [(''packet_type'', AStr ''X''), (''field_name'', AStr ''CMD1''), (''field_id'', AInt 7),
          (''message'', AVal (PStr ''careful'')), (''code'', ANone)]],
      Returned [(''WARN'', PStr ''careful''), (''RSLT'', PInt 1)])
   \<and> recv_field_fields \<lparr>auto_erro = True, auto_warn = True, auto_ackn = True\<rparr> ''X'' ''WARN'' None
     [FieldData ''WARN'' 8 [(''WARC'', PInt 3)]] []
   = ([Instance CommandWarning [AStr ''X'', AStr ''WARN'', AInt 8, ANone, AVal (PInt 3)]
         [(''packet_type'', AStr ''X''), (''field_name'', AStr ''WARN''), (''field_id'', AInt 8),
          (''message'', ANone), (''code'', AVal (PInt 3))]],
      Waiting)"
  using recv_field_warn [of "\<lparr>auto_erro = True, auto_warn = True, auto_ackn = True\<rparr>"
      "PacketData ''X'' 1 () [] [FieldData ''CMD1'' 7 [(''WARN'', PStr ''careful''), (''RSLT'', PInt 1)]]"
      "[]" "FieldData ''CMD1'' 7 [(''WARN'', PStr ''careful''), (''RSLT'', PInt 1)]" "[]" "''CMD1''" None "''X''" "[]"]
    recv_field_warn [of "\<lparr>auto_erro = True, auto_warn = True, auto_ackn = True\<rparr>"
      "PacketData ''X'' 1 () [] [FieldData ''WARN'' 8 [(''WARC'', PInt 3)]]"
      "[]" "FieldData ''WARN'' 8 [(''WARC'', PInt 3)]" "[]" "''WARN''" None "''X''" "[]"]
  by (simp add: field_matches_def has_param_def params_get_def command_args_def emitted_warnings_def
      del: recv_field_fields.simps(2))

text \<open>
  C9 as stated fails: with auto_warn and auto_ackn on, a field named CMD1 with a WARN and
  an ACKN param is skipped after the warning, although its name is not WARN.
\<close>

theorem recv_field_warn_counterexample:
  "recv_field_fields \<lparr>auto_erro = True, auto_warn = True, auto_ackn = True\<rparr> ''X'' ''CMD1'' None
     [FieldData ''CMD1'' 7 [(''WARN'', PStr ''careful''), (''ACKN'', PInt 1)]] []
   = ([Instance CommandWarning [AStr ''X'', AStr ''CMD1'', AInt 7, AVal (PStr ''careful''), ANone]
         [(''packet_type'', AStr ''X''), (''field_name'', AStr ''CMD1''), (''field_id'', AInt 7),
          (''message'', AVal (PStr ''careful'')), (''code'', ANone)]],
      Waiting)"
  by (simp add: handle_erro_def handle_warn_def handle_ackn_def params_get_def warn_def
      new_CommandWarning_def CommandMixin_init_def Let_def)

subsection \<open>Fan-out\<close>

lemma map2_same: "map2 f xs (map g xs) = map (\<lambda>x. f x (g x)) xs"
  by (induction xs) simp_all

lemma fan_out_map:
  "fan_out cfg callers packet = map (\<lambda>c. resume cfg c (Result packet)) callers"
proof -
  have "fst (reader_iteration (ReadPacket packet) (map (\<lambda>c. Pending) callers)) =
        map (\<lambda>c. Result packet) callers"
    by (simp add: reader_iteration_def)
  then show ?thesis by (simp add: fan_out_def map2_same)
qed

text \<open>
  C7, as the code has it: when \<open>n\<close> callers are pending in \<open>recv_field(t, f)\<close> and
  one packet of type \<open>t\<close> arrives, every caller gets the packet and takes its first
  field named \<open>f\<close>. If that field passes the auto-handlers, all \<open>n\<close> callers return,
  each with the params of that same field; if the packet has no field named \<open>f\<close>, all
  \<open>n\<close> callers keep waiting.
\<close>

theorem fan_out_all_callers_return:
  assumes "pd_type packet = t"
  shows "(pd_fields packet = pre @ field # post \<and> list_all (\<lambda>g. fd_name g \<noteq> f) pre
            \<and> fd_name field = f \<and> unfiltered cfg field \<longrightarrow>
          fan_out cfg (replicate n (t, f, None)) packet = replicate n (Returned (fd_params field)))
       \<and> (list_all (\<lambda>g. fd_name g \<noteq> f) (pd_fields packet) \<longrightarrow>
          fan_out cfg (replicate n (t, f, None)) packet = replicate n Waiting)"
proof (intro conjI impI)
  assume a: "pd_fields packet = pre @ field # post \<and> list_all (\<lambda>g. fd_name g \<noteq> f) pre
            \<and> fd_name field = f \<and> unfiltered cfg field"
  then have pre: "list_all (\<lambda>g. \<not> field_matches f None g) pre" and m: "field_matches f None field"
    by (auto simp: field_matches_def list_all_iff)
  from a have pf: "pd_fields packet = pre @ field # post" and u: "unfiltered cfg field"
    by simp_all
  have F: "recv_field_fields cfg t f None (pre @ field # post) [] =
           recv_field_fields cfg t f None (field # post) []"
    by (rule recv_field_fields_skip [OF pre])
  have H: "recv_field_fields cfg t f None (field # post) [] =
           ([] @ emitted_warnings cfg t field, Returned (fd_params field))"
    using u unfolding recv_field_fields_head [OF m] unfiltered_def by auto
  have "resume cfg (t, f, None) (Result packet) = Returned (fd_params field)"
    using assms by (simp add: resume_def pf F H del: recv_field_fields.simps)
  then show "fan_out cfg (replicate n (t, f, None)) packet = replicate n (Returned (fd_params field))"
    by (simp add: fan_out_map map_replicate_const)
next
  assume a: "list_all (\<lambda>g. fd_name g \<noteq> f) (pd_fields packet)"
  then have "list_all (\<lambda>g. \<not> field_matches f None g) (pd_fields packet)"
    by (auto simp: field_matches_def list_all_iff)
  from recv_field_fields_skip [OF this, of cfg t "[]" "[]"]
  have "resume cfg (t, f, None) (Result packet) = Waiting"
    using assms by (simp add: resume_def del: recv_field_fields.simps(2))
  then show "fan_out cfg (replicate n (t, f, None)) packet = replicate n Waiting"
    by (simp add: fan_out_map map_replicate_const)
qed

text \<open>The hypotheses of C7 hold for three callers and a packet with two fields named
  CMD1, and for a packet with none.\<close>

theorem fan_out_all_callers_return_witness:
  "fan_out \<lparr>auto_erro = True, auto_warn = True, auto_ackn = True\<rparr> (replicate 3 (''X'', ''CMD1'', None))
     (PacketData ''X'' 1 () [] [FieldData ''OTHR'' 6 [], FieldData ''CMD1'' 7 [(''RSLT'', PInt 1)],
        FieldData ''CMD1'' 8 [(''RSLT'', PInt 2)]])
   = replicate 3 (Returned [(''RSLT'', PInt 1)])
   \<and> fan_out \<lparr>auto_erro = True, auto_warn = True, auto_ackn = True\<rparr> (replicate 3 (''X'', ''CMD1'', None))
     (PacketData ''X'' 1 () [] [FieldData ''OTHR'' 6 [(''RSLT'', PInt 1)]])
   = replicate 3 Waiting"
  using fan_out_all_callers_return [of
      "PacketData ''X'' 1 () [] [FieldData ''OTHR'' 6 [], FieldData ''CMD1'' 7 [(''RSLT'', PInt 1)],
        FieldData ''CMD1'' 8 [(''RSLT'', PInt 2)]]" "''X''" "[FieldData ''OTHR'' 6 []]"
      "FieldData ''CMD1'' 7 [(''RSLT'', PInt 1)]" "[FieldData ''CMD1'' 8 [(''RSLT'', PInt 2)]]" "''CMD1''"
      "\<lparr>auto_erro = True, auto_warn = True, auto_ackn = True\<rparr>" 3]
    fan_out_all_callers_return [of
      "PacketData ''X'' 1 () [] [FieldData ''OTHR'' 6 [(''RSLT'', PInt 1)]]" "''X''" "[]"
      "FieldData ''OTHR'' 6 []" "[]" "''CMD1''"
      "\<lparr>auto_erro = True, auto_warn = True, auto_ackn = True\<rparr>" 3]
  by (simp add: unfiltered_def has_param_def params_get_def)

text \<open>
  C7 as stated fails: with two pending callers and a packet that carries one matching
  field, both callers return, not \<open>min 2 1 = 1\<close> of them.
\<close>

theorem fan_out_counterexample:
  "length (filter is_Returned
     (fan_out \<lparr>auto_erro = True, auto_warn = True, auto_ackn = True\<rparr>
        [(''X'', ''CMD1'', None), (''X'', ''CMD1'', None)]
        (PacketData ''X'' 1 () [] [FieldData ''CMD1'' 7 [(''RSLT'', PInt 1)]])))
   \<noteq> min (length [(''X'', ''CMD1'', None :: int option), (''X'', ''CMD1'', None)])
         (length (filter (\<lambda>g. fd_name g = ''CMD1'') [FieldData ''CMD1'' 7 [(''RSLT'', PInt 1)]]))"
  by (simp add: fan_out_def reader_iteration_def resume_def handle_erro_def handle_warn_def
      handle_ackn_def params_get_def)

section \<open>Properties of the packet codec\<close>

subsection \<open>The packet header\<close>

lemma decode_packet_cps_bad_magic:
  "length h = 32 \<Longrightarrow> take 4 h \<noteq> packet_header_magic \<Longrightarrow> decode_packet_cps dv utd h = Inl TypeError"
  by (simp add: decode_packet_cps_def unpack_def Let_def raise_def new_DecodeError_def CommandMixin_init_def)

lemma decode_packet_cps_good_magic:
  "length h = 32 \<Longrightarrow> take 4 h = packet_header_magic \<Longrightarrow>
   \<exists>body. decode_packet_cps dv utd h = Inr (int (from_bytes (take 4 (drop 8 h))) * 4 - 32, body)"
  by (simp add: decode_packet_cps_def unpack_def Let_def)

text \<open>
  C4 fails on the code: a 32-byte header whose first four bytes are not DD CC BB AA makes
  decode_packet_cps raise \<open>TypeError\<close>, not a \<open>DecodeError\<close>, because the
  constructor of \<open>DecodeError\<close> is that of \<open>CommandMixin\<close> and takes five
  arguments where decode_packet_cps gives one.
\<close>

theorem decode_packet_cps_bad_magic_TypeError:
  "decode_packet_cps dv utd ([0xAA, 0xBB, 0xCC, 0xDD] @ replicate 28 0) = Inl TypeError"
  by (rule decode_packet_cps_bad_magic) (simp_all add: packet_header_magic_def)

subsection \<open>Bytes and identifiers\<close>

lemma length_to_le [simp]: "length (to_le n x) = n"
  by (induction n arbitrary: x) simp_all

lemma from_bytes_to_le: "x < 256 ^ n \<Longrightarrow> from_bytes (to_le n x) = x"
proof (induction n arbitrary: x)
  case 0
  then show ?case by simp
next
  case (Suc n)
  have "x div 256 < 256 ^ n" using Suc.prems by (simp add: less_mult_imp_div_less mult.commute)
  from Suc.IH [OF this] have ih: "from_bytes (to_le n (x div 256)) = x div 256" .
  have "unat (of_nat (x mod 256) :: byte) = x mod 256"
    by (simp add: unat_of_nat)
  with ih show ?case by simp
qed

lemma length_pack_s [simp]: "length (pack_s n bs) = n"
  by (simp add: pack_s_def)

lemma pack_s_exact: "length bs = n \<Longrightarrow> pack_s n bs = bs"
  by (simp add: pack_s_def)

lemma latin1_char_roundtrip: "char_of (unat (of_nat (of_char c) :: byte)) = c"
proof -
  have "(of_char c :: nat) < 256" by simp
  then have "unat (of_nat (of_char c) :: byte) = of_char c"
    by (simp add: unat_of_nat)
  then show ?thesis by simp
qed

lemma latin1_decode_encode: "latin1_decode (latin1_encode s) = s"
  by (simp add: latin1_decode_def latin1_encode_def comp_def latin1_char_roundtrip)

lemma latin1_byte_eq_iff:
  "(of_nat (of_char c) :: byte) = of_nat (of_char d) \<longleftrightarrow> c = d"
  by (metis latin1_char_roundtrip)

lemma latin1_space: "(of_nat (of_char c) :: byte) = 0x20 \<longleftrightarrow> c = CHR '' ''"
  using latin1_byte_eq_iff [of c "CHR '' ''"] by simp

lemma latin1_nul: "(of_nat (of_char c) :: byte) = 0 \<longleftrightarrow> c = CHR 0x00"
  using latin1_byte_eq_iff [of c "CHR 0x00"] by simp

lemma dropWhile_padding:
  "dropWhile (\<lambda>b. b = 0x20 \<or> b = 0x00) (replicate k (0 :: byte) @ bs) =
   dropWhile (\<lambda>b. b = 0x20 \<or> b = 0x00) bs"
  by (induction k) simp_all

lemma rstrip_padding: "rstrip (bs @ replicate k 0) = rstrip bs"
  by (simp add: rstrip_def dropWhile_padding)

lemma dropWhile_latin1:
  "dropWhile (\<lambda>b. b = 0x20 \<or> b = 0x00) (map (\<lambda>c. of_nat (of_char c) :: byte) cs) =
   map (\<lambda>c. of_nat (of_char c)) (dropWhile (\<lambda>c. c = CHR '' '' \<or> c = CHR 0x00) cs)"
  by (induction cs) (simp_all add: latin1_space latin1_nul)

lemma rstrip_latin1: "rstrip (latin1_encode s) = latin1_encode (normalise_identifier s)"
  by (simp add: rstrip_def latin1_encode_def normalise_identifier_def rev_map dropWhile_latin1)

lemma decode_identifier_pack_s:
  "length s \<le> 4 \<Longrightarrow> decode_identifier (pack_s 4 (latin1_encode s)) = normalise_identifier s"
proof -
  assume "length s \<le> 4"
  then have "pack_s 4 (latin1_encode s) = latin1_encode s @ replicate (4 - length s) 0"
    by (simp add: pack_s_def latin1_encode_def)
  then show ?thesis
    by (simp add: decode_identifier_def rstrip_padding rstrip_latin1 latin1_decode_encode)
qed

lemma pad_len_aligned: "(n + pad_len n) mod 4 = 0"
proof -
  have "int ((n + pad_len n) mod 4) = (int n + (- int n mod 4)) mod 4"
    by (simp add: pad_len_def zmod_int)
  also have "\<dots> = (int n + - int n) mod 4"
    by (simp only: mod_add_right_eq)
  finally show ?thesis by simp
qed

lemma pad_len_less: "pad_len n < 4"
  by (simp add: pad_len_def nat_less_iff)

lemma type_byte_roundtrip: "0 \<le> t \<Longrightarrow> t < 256 \<Longrightarrow> int (unat (of_int t :: byte)) = t"
proof -
  assume "0 \<le> t" "t < 256"
  then have "uint (word_of_int t :: byte) = t"
    by (simp add: uint_word_of_int)
  then show ?thesis by (simp add: uint_nat [symmetric])
qed

lemma type_byte_neq: "0 \<le> t \<Longrightarrow> t < 256 \<Longrightarrow> t \<noteq> 221 \<Longrightarrow> (of_int t :: byte) \<noteq> 221"
  using type_byte_roundtrip [of t] by auto

subsection \<open>The layout of an encoded packet\<close>

lemma length_param_bytes [simp]: "length (param_bytes ev p) = param_size ev p"
  by (simp add: param_bytes_def param_size_def Let_def)

lemma param_size_aligned: "param_size ev p mod 4 = 0"
  by (simp add: param_size_def Let_def pad_len_aligned)

lemma param_size_ge8: "8 \<le> param_size ev p"
  by (simp add: param_size_def Let_def)

lemma items_bytes_params:
  "items_bytes ev (params_items ps) = concat (map (param_bytes ev) ps)"
  by (simp add: items_bytes_def params_items_def comp_def)

lemma length_concat_params:
  "length (concat (map (param_bytes ev) ps)) = sum_list (map (param_size ev) ps)"
  by (simp add: length_concat comp_def)

lemma length_field_bytes [simp]: "length (field_bytes ev f) = field_size ev f"
  by (simp add: field_bytes_def wire_field_def field_size_def items_bytes_params length_concat_params)

lemma encode_params_layout:
  "encode_params ev ps (buf, off) = Inr (buf', off') \<Longrightarrow>
     buf' = buf @ concat (map (param_bytes ev) ps)
     \<and> off' = off + length (concat (map (param_bytes ev) ps))
     \<and> list_all (enc_param_ok ev) ps"
proof (induction ps arbitrary: buf off)
  case Nil
  then show ?case by simp
next
  case (Cons p ps)
  obtain n v where p: "p = (n, v)" by (cases p)
  from Cons.prems p obtain t enc where ev: "ev v = Inr (t, enc)"
    by (cases "ev v") auto
  let ?psz = "8 + length enc"
  have sz: "param_size ev (n, v) = ?psz + pad_len ?psz"
    by (simp add: param_size_def encoded_def ev Let_def)
  from Cons.prems p ev have fit: "(?psz + pad_len ?psz) div 4 < 256 ^ 3"
    by (auto simp: Let_def to_bytes_def pad_len_def split: if_splits)
  from Cons.prems p ev fit have t: "0 \<le> t \<and> t < 256"
    by (auto simp: Let_def to_bytes_def pack_B_def pad_len_def split: if_splits)
  have pb: "param_bytes ev (n, v) =
      pack_s 4 (latin1_encode n) @ to_le 3 ((?psz + pad_len ?psz) div 4) @ [of_int t] @ enc
        @ replicate (pad_len ?psz) 0"
    by (simp add: param_bytes_def sz encoded_def ev)
  from Cons.prems p ev fit t
  have rec: "encode_params ev ps (buf @ param_bytes ev p, off + param_size ev p) = Inr (buf', off')"
    by (simp add: Let_def to_bytes_def pack_B_def pb sz pack_s_exact pad_len_def [symmetric] add.assoc)
  from Cons.IH [OF rec] have
    "buf' = (buf @ param_bytes ev p) @ concat (map (param_bytes ev) ps)"
    "off' = off + param_size ev p + length (concat (map (param_bytes ev) ps))"
    "list_all (enc_param_ok ev) ps" by simp_all
  moreover have "enc_param_ok ev p"
    using fit t by (simp add: enc_param_ok_def p ev sz)
  ultimately show ?case by simp
qed

lemma slice_assign_mid:
  "length pre = a \<Longrightarrow> length old = b - a \<Longrightarrow> a \<le> b \<Longrightarrow>
   slice_assign (pre @ old @ post) a b new = pre @ new @ post"
  by (simp add: slice_assign_def)

lemma py_slice_mid:
  "length pre = a \<Longrightarrow> length mid = b - a \<Longrightarrow> a \<le> b \<Longrightarrow>
   py_slice (pre @ mid @ post) a b = mid"
  by (simp add: py_slice_def)

lemma pack_I_Inr: "pack_I x = Inr bs \<Longrightarrow> 0 \<le> x \<and> x < 2 ^ 32 \<and> bs = to_le 4 (nat x)"
  by (auto simp: pack_I_def split: if_splits)

lemma to_bytes_Inr: "to_bytes n x = Inr bs \<Longrightarrow> x < 256 ^ n \<and> bs = to_le n x"
  by (auto simp: to_bytes_def split: if_splits)

lemma encode_fields_layout:
  "encode_fields ev fs (buf, length buf) = Inr (buf', off') \<Longrightarrow>
     buf' = buf @ concat (map (field_bytes ev) fs) \<and> off' = length buf'
     \<and> list_all (enc_field_ok ev) fs"
proof (induction fs arbitrary: buf)
  case Nil
  then show ?case by auto
next
  case (Cons f fs)
  obtain field_name field_id params where f: "f = FieldData field_name field_id params"
    by (cases f)
  let ?hdr0 = "pack_s 4 (latin1_encode field_name) @ pack_s 3 [0, 0, 0] @ pack_s 1 [0]
                 @ to_le 4 (nat field_id)"
  from Cons.prems f obtain id_bytes where pi: "pack_I field_id = (Inr id_bytes :: 'a exn + byte list)"
    by (cases "pack_I field_id :: 'a exn + byte list") (auto simp: Let_def)
  note idr = pack_I_Inr [OF pi]
  from Cons.prems f pi idr obtain b1 o1 where
    ep: "encode_params ev params (buf @ ?hdr0, length buf + 12) = Inr (b1, o1)"
    by (cases "encode_params ev params (buf @ ?hdr0, length buf + 12)") (auto simp: Let_def)
  note lay = encode_params_layout [OF ep]
  let ?pb = "concat (map (param_bytes ev) params)"
  from lay have b1: "b1 = (buf @ ?hdr0) @ ?pb" and o1: "o1 = length buf + 12 + length ?pb"
    and pok: "list_all (enc_param_ok ev) params"
    by simp_all
  from Cons.prems f pi idr ep obtain size_bytes where
    tb: "to_bytes 3 ((o1 - length buf) div 4) = (Inr size_bytes :: 'a exn + byte list)"
    by (cases "to_bytes 3 ((o1 - length buf) div 4) :: 'a exn + byte list") (auto simp: Let_def)
  note tbr = to_bytes_Inr [OF tb]
  have fsz: "field_size ev f = 12 + length ?pb"
    by (simp add: field_size_def f length_concat_params)
  from tbr o1 have fit: "field_size ev f div 4 < 256 ^ 3" and sb: "size_bytes = to_le 3 (field_size ev f div 4)"
    by (simp_all add: fsz)
  have patched: "slice_assign b1 (length buf + 4) (length buf + 7) (take 3 size_bytes) =
        buf @ field_bytes ev f"
  proof -
    define H1 where "H1 = buf @ pack_s 4 (latin1_encode field_name)"
    define R where "R = pack_s 1 [0] @ to_le 4 (nat field_id) @ ?pb"
    have "b1 = H1 @ pack_s 3 [0, 0, 0] @ R"
      by (simp add: b1 H1_def R_def)
    moreover have "slice_assign (H1 @ pack_s 3 [0, 0, 0] @ R) (length buf + 4) (length buf + 7)
        (take 3 size_bytes) = H1 @ take 3 size_bytes @ R"
      by (rule slice_assign_mid) (simp_all add: H1_def)
    ultimately have "slice_assign b1 (length buf + 4) (length buf + 7) (take 3 size_bytes) =
        (buf @ pack_s 4 (latin1_encode field_name)) @ take 3 size_bytes
          @ (pack_s 1 [0] @ to_le 4 (nat field_id) @ ?pb)"
      by (simp add: H1_def R_def)
    also have "\<dots> = buf @ field_bytes ev f"
      by (simp add: sb field_bytes_def wire_field_def f items_bytes_params fsz [unfolded f]
          pack_s_def)
    finally show ?thesis .
  qed
  from Cons.prems f pi idr ep tb
  have rec: "encode_fields ev fs (buf @ field_bytes ev f, length (buf @ field_bytes ev f)) = Inr (buf', off')"
    by (simp add: Let_def patched [unfolded f] o1 fsz [unfolded f, symmetric] del: length_field_bytes)
      (simp add: fsz [unfolded f] add.assoc)
  from Cons.IH [OF rec] have
    "buf' = (buf @ field_bytes ev f) @ concat (map (field_bytes ev) fs)" "off' = length buf'"
    "list_all (enc_field_ok ev) fs" by simp_all
  moreover have "enc_field_ok ev f"
    using idr pok fit by (simp add: enc_field_ok_def f)
  ultimately show ?case by simp
qed

lemma encode_packet_layout:
  assumes "encode_packet ev dtu packet_type packet_id timestamp info fs = Inr buf"
  shows "buf = wire_packet packet_type packet_id [1, 0, 0, 0] (fst (dtu timestamp)) (snd (dtu timestamp))
                 info (concat (map (field_bytes ev) fs)) [0, 0, 0, 0]
         \<and> enc_packet_ok ev packet_id (fst (dtu timestamp)) (snd (dtu timestamp)) fs"
proof -
  obtain unix nano where dt: "dtu timestamp = (unix, nano)" by (cases "dtu timestamp")
  have p0: "pack_I 0 = (Inr (to_le 4 0) :: 'a exn + byte list)" by (simp add: pack_I_def)
  from assms dt p0 obtain id_bytes where pi: "pack_I packet_id = (Inr id_bytes :: 'a exn + byte list)"
    by (cases "pack_I packet_id :: 'a exn + byte list") (auto simp: encode_packet_def)
  from assms dt p0 pi obtain unix_bytes where pu: "pack_I unix = (Inr unix_bytes :: 'a exn + byte list)"
    by (cases "pack_I unix :: 'a exn + byte list") (auto simp: encode_packet_def)
  from assms dt p0 pi pu obtain nano_bytes where pn: "pack_I nano = (Inr nano_bytes :: 'a exn + byte list)"
    by (cases "pack_I nano :: 'a exn + byte list") (auto simp: encode_packet_def)
  note ri = pack_I_Inr [OF pi] and ru = pack_I_Inr [OF pu] and rn = pack_I_Inr [OF pn]
  let ?buf0 = "packet_header_magic @ pack_s 4 (latin1_encode packet_type) @ to_le 4 0
                 @ to_le 4 (nat packet_id) @ pack_s 4 [0x01, 0x00, 0x00, 0x00] @ to_le 4 (nat unix)
                 @ to_le 4 (nat nano) @ pack_s 4 info"
  have l0: "length ?buf0 = 32" by (simp add: packet_header_magic_def)
  from assms dt p0 pi pu pn ri ru rn obtain b1 o1 where
    ef: "encode_fields ev fs (?buf0, length ?buf0) = Inr (b1, o1)"
    unfolding l0
    by (cases "encode_fields ev fs (?buf0, 32)") (auto simp: encode_packet_def Let_def)
  note lay = encode_fields_layout [OF ef]
  let ?body = "concat (map (field_bytes ev) fs)"
  from lay have b1: "b1 = ?buf0 @ ?body" and o1: "o1 = 32 + length ?body"
    and fok: "list_all (enc_field_ok ev) fs"
    using l0 by simp_all
  from assms dt p0 pi pu pn ri ru rn ef [unfolded l0] obtain size_bytes where
    tb: "to_bytes 4 ((o1 + 8) div 4) = (Inr size_bytes :: 'a exn + byte list)"
    and res: "buf = slice_assign (b1 @ packet_footer_bytes) 8 12 size_bytes"
    by (cases "to_bytes 4 ((o1 + 8) div 4) :: 'a exn + byte list") (auto simp: encode_packet_def Let_def)
  note tbr = to_bytes_Inr [OF tb]
  define H1 where "H1 = packet_header_magic @ pack_s 4 (latin1_encode packet_type)"
  define R where "R = to_le 4 (nat packet_id) @ pack_s 4 [0x01, 0x00, 0x00, 0x00] @ to_le 4 (nat unix)
             @ to_le 4 (nat nano) @ pack_s 4 info @ ?body @ packet_footer_bytes"
  have "b1 @ packet_footer_bytes = H1 @ to_le 4 0 @ R"
    by (simp add: b1 H1_def R_def)
  moreover have "slice_assign (H1 @ to_le 4 0 @ R) 8 12 size_bytes = H1 @ size_bytes @ R"
    by (rule slice_assign_mid) (simp_all add: H1_def packet_header_magic_def)
  ultimately have "buf = H1 @ size_bytes @ R"
    by (simp add: res)
  then have "buf = wire_packet packet_type packet_id [1, 0, 0, 0] unix nano info ?body [0, 0, 0, 0]"
    using tbr o1
    by (simp add: wire_packet_def wire_header_def pack_s_def packet_footer_bytes_def
        packet_footer_magic_def add.commute H1_def R_def)
  moreover have "enc_packet_ok ev packet_id unix nano fs"
    using ri ru rn fok tbr o1 by (simp add: enc_packet_ok_def add.commute)
  ultimately show ?thesis by (simp add: dt)
qed

subsection \<open>Decoding the params of a field\<close>

lemma words_bytes: "(n::nat) mod 4 = 0 \<Longrightarrow> n div 4 * 4 = n"
  by presburger

lemma decode_params_done:
  "decode_params dv buf n n params ws = Some (ws, Inr (n, params))"
  by (subst decode_params.simps) simp

lemma decode_params_footer:
  assumes buf: "buf = pre @ packet_footer_bytes @ post"
    and lim: "length pre + 8 \<le> limit"
  shows "decode_params dv buf (length pre) limit params ws =
         decode_params dv buf (length pre + 8) limit params (ws @ [footer_warning])"
proof -
  have s: "py_slice buf (length pre) (length pre + 8) = packet_footer_bytes"
    unfolding buf by (rule py_slice_mid) (simp_all add: packet_footer_bytes_def)
  from lim have lt: "length pre < limit" by simp
  show ?thesis
    by (subst decode_params.simps)
      (simp add: s lt warn_def new_DecodeWarning_def footer_warning_def)
qed

lemma decode_params_param:
  assumes ok: "enc_param_ok ev p" and legal: "legal_param ev dv p"
    and buf: "buf = pre @ param_bytes ev p @ post"
    and lim: "length pre + param_size ev p \<le> limit"
  shows "decode_params dv buf (length pre) limit params ws =
         decode_params dv buf (length pre + param_size ev p) limit
           (od_setitem (normalise_identifier (fst p)) (snd p) params) ws"
proof -
  obtain t enc where ev: "ev (snd p) = Inr (t, enc)"
    using ok by (cases "ev (snd p)") (auto simp: enc_param_ok_def)
  have e: "encoded ev (snd p) = (t, enc)" by (simp add: encoded_def ev)
  from ok ev have t: "0 \<le> t" "t < 256" and fit: "param_size ev p div 4 < 256 ^ 3"
    by (simp_all add: enc_param_ok_def)
  from legal e have name: "length (fst p) \<le> 4" and nq: "t \<noteq> 221"
    and dv: "dv t (enc @ replicate (pad_len (8 + length enc)) 0) = Inr (snd p)"
    by (simp_all add: legal_param_def)
  define name4 where "name4 = pack_s 4 (latin1_encode (fst p))"
  define sz3 where "sz3 = to_le 3 (param_size ev p div 4)"
  define hdr where "hdr = name4 @ sz3 @ [of_int t :: byte]"
  define payload where "payload = enc @ replicate (pad_len (8 + length enc)) 0"
  have pb: "param_bytes ev p = hdr @ payload"
    by (simp add: param_bytes_def hdr_def name4_def sz3_def payload_def e)
  have lh: "length hdr = 8" by (simp add: hdr_def name4_def sz3_def)
  have psz: "param_size ev p = 8 + length payload"
    by (simp add: param_size_def e payload_def Let_def)
  have buf': "buf = pre @ hdr @ (payload @ post)" by (simp add: buf pb)
  have buf'': "buf = (pre @ hdr) @ payload @ post" by (simp add: buf pb)
  have s1: "py_slice buf (length pre) (length pre + 8) = hdr"
    unfolding buf' by (rule py_slice_mid) (simp_all add: lh)
  have h7: "hdr ! 7 = of_int t" by (simp add: hdr_def name4_def sz3_def nth_append)
  moreover have "packet_footer_bytes ! 7 = (221 :: byte)" by (simp add: packet_footer_bytes_def)
  ultimately have nf: "hdr \<noteq> packet_footer_bytes"
    using type_byte_neq [OF t nq] by metis
  have u: "unpack_from 8 buf (int (length pre)) = Inr hdr"
    by (simp add: unpack_from_def buf' lh)
  have h1: "take 4 hdr = name4" by (simp add: hdr_def name4_def)
  have h2: "take 3 (drop 4 hdr) = sz3" by (simp add: hdr_def name4_def sz3_def)
  have h3: "int (unat (hdr ! 7)) = t"
    unfolding h7 by (rule type_byte_roundtrip [OF t])
  have h3': "uint (hdr ! 7) = t" unfolding uint_nat by (rule h3)
  have words: "from_bytes sz3 * 4 = param_size ev p"
    using from_bytes_to_le [OF fit] words_bytes [OF param_size_aligned [of ev p]]
    by (simp add: sz3_def)
  have s2: "py_slice buf (length pre + 8) (length pre + param_size ev p) = payload"
    unfolding buf'' by (rule py_slice_mid) (simp_all add: lh psz)
  have id: "decode_identifier name4 = normalise_identifier (fst p)"
    unfolding name4_def by (rule decode_identifier_pack_s [OF name])
  from lim psz have lt: "length pre < limit" by simp
  from lim have nl: "\<not> limit < length pre + param_size ev p" by simp
  show ?thesis
    by (subst decode_params.simps)
      (simp add: lt nl s1 nf u h1 h2 h3 h3' words s2 dv [folded payload_def] id lim Let_def
        del: from_bytes.simps)
qed

lemma length_footer_bytes [simp]: "length packet_footer_bytes = 8"
  by (simp add: packet_footer_bytes_def)

lemma item_size_ge8: "8 \<le> length (item_bytes ev item)"
  by (cases item) (simp_all add: param_size_ge8)

lemma item_size_aligned: "length (item_bytes ev item) mod 4 = 0"
  by (cases item) (simp_all add: param_size_aligned)

lemma items_bytes_aligned: "length (items_bytes ev items) mod 4 = 0"
  by (induction items) (simp_all add: items_bytes_def item_size_aligned mod_add_eq [symmetric])

lemma decode_params_item:
  assumes ok: "item_ok ev dv item"
    and buf: "buf = pre @ item_bytes ev item @ post"
    and lim: "length pre + length (item_bytes ev item) \<le> limit"
  shows "decode_params dv buf (length pre) limit params ws =
         decode_params dv buf (length pre + length (item_bytes ev item)) limit
           (add_item params item) (ws @ item_warnings item)"
proof (cases item)
  case (WParam n v)
  with ok have a: "enc_param_ok ev (n, v)" and b: "legal_param ev dv (n, v)" by simp_all
  from decode_params_param [OF a b, of buf pre post limit params ws] buf lim WParam
  show ?thesis by simp
next
  case WFooter
  from decode_params_footer [of buf pre post limit dv params ws] buf lim WFooter
  show ?thesis by simp
qed

lemma decode_params_items:
  assumes "list_all (item_ok ev dv) items"
  shows "decode_params dv (pre @ items_bytes ev items @ post) (length pre)
           (length pre + length (items_bytes ev items)) params ws =
         Some (ws @ concat (map item_warnings items),
               Inr (length pre + length (items_bytes ev items), foldl add_item params items))"
  using assms
proof (induction items arbitrary: pre params ws)
  case Nil
  then show ?case by (simp add: items_bytes_def decode_params_done)
next
  case (Cons item items)
  let ?ib = "item_bytes ev item"
  let ?buf = "pre @ items_bytes ev (item # items) @ post"
  have b1: "?buf = pre @ ?ib @ (items_bytes ev items @ post)"
    by (simp add: items_bytes_def)
  have b2: "?buf = (pre @ ?ib) @ items_bytes ev items @ post"
    by (simp add: items_bytes_def)
  have len: "length (items_bytes ev (item # items)) = length ?ib + length (items_bytes ev items)"
    by (simp add: items_bytes_def)
  from Cons.prems have ok: "item_ok ev dv item" and oks: "list_all (item_ok ev dv) items"
    by simp_all
  have "decode_params dv ?buf (length pre) (length pre + length (items_bytes ev (item # items))) params ws =
        decode_params dv ?buf (length pre + length ?ib)
          (length pre + length (items_bytes ev (item # items)))
          (add_item params item) (ws @ item_warnings item)"
    by (rule decode_params_item [OF ok b1]) (simp add: len)
  also have "\<dots> = decode_params dv ((pre @ ?ib) @ items_bytes ev items @ post) (length (pre @ ?ib))
          (length (pre @ ?ib) + length (items_bytes ev items))
          (add_item params item) (ws @ item_warnings item)"
    by (simp only: b2 len length_append add.assoc)
  also have "\<dots> = Some ((ws @ item_warnings item) @ concat (map item_warnings items),
               Inr (length (pre @ ?ib) + length (items_bytes ev items),
                    foldl add_item (add_item params item) items))"
    by (rule Cons.IH [OF oks])
  finally show ?case by (simp add: len add.assoc)
qed

subsection \<open>Decoding the fields of a packet\<close>

lemma length_wire_field: "length (wire_field ev n i items) = 12 + length (items_bytes ev items)"
  by (simp add: wire_field_def)

lemma decode_fields_done:
  "decode_fields dv buf n (int n) fs ws = Some (ws, Inr fs)"
  by (subst decode_fields.simps) simp

lemma decode_fields_field:
  assumes ok: "wfield_ok ev dv wfd"
    and buf: "buf = pre @ wfield_bytes ev wfd @ post"
    and lim: "int (length pre) < field_limit"
  shows "decode_fields dv buf (length pre) field_limit fs ws =
         decode_fields dv buf (length pre + length (wfield_bytes ev wfd)) field_limit
           (fs @ [wfield_decoded wfd]) (ws @ wfield_warnings wfd)"
proof -
  obtain n i items where wfd: "wfd = (n, i, items)" by (cases wfd)
  from ok wfd have name: "length n \<le> 4" and i: "0 \<le> i" "i < 2 ^ 32"
    and items: "list_all (item_ok ev dv) items"
    and fit: "(12 + length (items_bytes ev items)) div 4 < 256 ^ 3"
    by (simp_all add: wfield_ok_def)
  define name4 where "name4 = pack_s 4 (latin1_encode n)"
  define sz3 where "sz3 = to_le 3 ((12 + length (items_bytes ev items)) div 4)"
  define id4 where "id4 = to_le 4 (nat i)"
  define hdr where "hdr = name4 @ sz3 @ [0 :: byte] @ id4"
  define ib where "ib = items_bytes ev items"
  have wb: "wfield_bytes ev wfd = hdr @ ib"
    by (simp add: wfield_bytes_def wfd wire_field_def hdr_def name4_def sz3_def id4_def ib_def)
  have lh: "length hdr = 12" by (simp add: hdr_def name4_def sz3_def id4_def)
  have buf': "buf = pre @ hdr @ (ib @ post)" by (simp add: buf wb)
  have buf'': "buf = (pre @ hdr) @ ib @ post" by (simp add: buf wb)
  have u: "unpack_from 12 buf (int (length pre)) = Inr hdr"
    by (simp add: unpack_from_def buf' lh)
  have h1: "take 4 hdr = name4" by (simp add: hdr_def name4_def)
  have h2: "take 3 (drop 4 hdr) = sz3" by (simp add: hdr_def name4_def sz3_def)
  have h3: "drop 8 hdr = id4" by (simp add: hdr_def name4_def sz3_def)
  have al: "(12 + length ib) mod 4 = 0"
    using items_bytes_aligned [of ev items] unfolding ib_def by presburger
  have words: "from_bytes sz3 * 4 = 12 + length ib"
    using from_bytes_to_le [OF fit] words_bytes [OF al] by (simp add: sz3_def ib_def)
  have "nat i < 256 ^ 4" using i by (simp add: nat_less_iff)
  from from_bytes_to_le [OF this] i have fid: "int (from_bytes id4) = i"
    by (simp add: id4_def)
  have id: "decode_identifier name4 = normalise_identifier n"
    unfolding name4_def by (rule decode_identifier_pack_s [OF name])
  have dp: "decode_params dv buf (length pre + 12) (length pre + (12 + length ib)) [] ws =
        Some (ws @ concat (map item_warnings items),
              Inr (length pre + 12 + length ib, foldl add_item [] items))"
    using decode_params_items [OF items, of "pre @ hdr" post "[]" ws]
    by (simp add: buf'' lh ib_def add.assoc)
  show ?thesis
    by (subst decode_fields.simps)
      (simp add: lim u h1 h2 h3 words fid id dp Let_def wb [unfolded wfd] lh wfd wfield_decoded_def
        wfield_warnings_def add.assoc del: from_bytes.simps)
qed

lemma decode_fields_wfields:
  assumes "list_all (wfield_ok ev dv) wfs"
  shows "decode_fields dv (pre @ concat (map (wfield_bytes ev) wfs) @ post) (length pre)
           (int (length pre + length (concat (map (wfield_bytes ev) wfs)))) fs ws =
         Some (ws @ concat (map wfield_warnings wfs), Inr (fs @ map wfield_decoded wfs))"
  using assms
proof (induction wfs arbitrary: pre fs ws)
  case Nil
  then show ?case by (simp add: decode_fields_done)
next
  case (Cons wfd wfs)
  let ?wb = "wfield_bytes ev wfd"
  let ?rest = "concat (map (wfield_bytes ev) wfs)"
  let ?buf = "pre @ concat (map (wfield_bytes ev) (wfd # wfs)) @ post"
  let ?lim = "int (length pre + length (concat (map (wfield_bytes ev) (wfd # wfs))))"
  have b1: "?buf = pre @ ?wb @ (?rest @ post)" by simp
  have b2: "?buf = (pre @ ?wb) @ ?rest @ post" by simp
  have l12: "12 \<le> length ?wb"
    by (cases wfd) (simp add: wfield_bytes_def length_wire_field)
  have lim: "?lim = int (length (pre @ ?wb) + length ?rest)" by simp
  from Cons.prems have ok: "wfield_ok ev dv wfd" and oks: "list_all (wfield_ok ev dv) wfs"
    by simp_all
  have "decode_fields dv ?buf (length pre) ?lim fs ws =
        decode_fields dv ?buf (length pre + length ?wb) ?lim
          (fs @ [wfield_decoded wfd]) (ws @ wfield_warnings wfd)"
    by (rule decode_fields_field [OF ok b1]) (use l12 in simp)
  also have "\<dots> = decode_fields dv ((pre @ ?wb) @ ?rest @ post) (length (pre @ ?wb))
          (int (length (pre @ ?wb) + length ?rest))
          (fs @ [wfield_decoded wfd]) (ws @ wfield_warnings wfd)"
    by (simp only: b2 lim length_append)
  also have "\<dots> = Some ((ws @ wfield_warnings wfd) @ concat (map wfield_warnings wfs),
               Inr ((fs @ [wfield_decoded wfd]) @ map wfield_decoded wfs))"
    by (rule Cons.IH [OF oks])
  finally show ?case by simp
qed

subsection \<open>Decoding a packet from its wire layout\<close>

lemma wfield_bytes_aligned: "length (wfield_bytes ev wfd) mod 4 = 0"
proof -
  obtain n i items where "wfd = (n, i, items)" by (cases wfd)
  then show ?thesis
    using items_bytes_aligned [of ev items]
    by (simp add: wfield_bytes_def length_wire_field) presburger
qed

lemma wfields_bytes_aligned: "length (concat (map (wfield_bytes ev) wfs)) mod 4 = 0"
  by (induction wfs) (simp_all add: wfield_bytes_aligned mod_add_eq [symmetric])

lemma decode_packet_cps_wire_header:
  assumes pt: "length packet_type \<le> 4"
    and pid: "0 \<le> packet_id" "packet_id < 2 ^ 32"
    and unix: "0 \<le> unix" "unix < 2 ^ 32"
    and nano: "0 \<le> nano" "nano < 2 ^ 32"
    and ft: "length format_tag = 4"
    and fit: "size_words < 256 ^ 4"
  shows "decode_packet_cps dv utd
           (wire_header packet_type size_words packet_id format_tag unix nano info) =
         Inr (int size_words * 4 - 32,
              decode_packet_body dv (normalise_identifier packet_type) packet_id (utd unix nano)
                (pack_s 4 info) (int size_words * 4 - 32))"
proof -
  define name4 where "name4 = pack_s 4 (latin1_encode packet_type)"
  define sz where "sz = to_le 4 size_words"
  define id4 where "id4 = to_le 4 (nat packet_id)"
  define u4 where "u4 = to_le 4 (nat unix)"
  define n4 where "n4 = to_le 4 (nat nano)"
  define i4 where "i4 = pack_s 4 info"
  define h where "h = wire_header packet_type size_words packet_id format_tag unix nano info"
  have h: "h = packet_header_magic @ name4 @ sz @ id4 @ format_tag @ u4 @ n4 @ i4"
    by (simp add: h_def wire_header_def name4_def sz_def id4_def u4_def n4_def i4_def)
  have lens: "length packet_header_magic = 4" "length name4 = 4" "length sz = 4" "length id4 = 4"
    "length u4 = 4" "length n4 = 4" "length i4 = 4"
    by (simp_all add: packet_header_magic_def name4_def sz_def id4_def u4_def n4_def i4_def)
  have lh: "length h = 32" by (simp add: h lens ft)
  have c1: "take 4 h = packet_header_magic" by (simp add: h lens)
  have c2: "take 4 (drop 4 h) = name4" by (simp add: h lens)
  have c3: "take 4 (drop 8 h) = sz" by (simp add: h lens)
  have c4: "take 4 (drop 12 h) = id4" by (simp add: h lens)
  have c6: "take 4 (drop 20 h) = u4" by (simp add: h lens ft)
  have c7: "take 4 (drop 24 h) = n4" by (simp add: h lens ft)
  have c8: "take 4 (drop 28 h) = i4" by (simp add: h lens ft)
  have r: "nat x < 256 ^ 4" if "0 \<le> x" "x < 2 ^ 32" for x :: int
    using that by (simp add: nat_less_iff)
  have v3: "int (from_bytes sz) = int size_words"
    using from_bytes_to_le [OF fit] by (simp add: sz_def)
  have v4: "int (from_bytes id4) = packet_id"
    using from_bytes_to_le [OF r [OF pid]] pid by (simp add: id4_def)
  have v6: "int (from_bytes u4) = unix"
    using from_bytes_to_le [OF r [OF unix]] unix by (simp add: u4_def)
  have v7: "int (from_bytes n4) = nano"
    using from_bytes_to_le [OF r [OF nano]] nano by (simp add: n4_def)
  have id: "decode_identifier name4 = normalise_identifier packet_type"
    unfolding name4_def by (rule decode_identifier_pack_s [OF pt])
  show ?thesis
    unfolding h_def [symmetric]
    by (simp add: decode_packet_cps_def unpack_def lh c1 c2 c3 c4 c6 c7 c8 v3 v4 v6 v7 id Let_def
        i4_def del: from_bytes.simps)
qed

lemma decode_wire_packet:
  assumes wfs: "list_all (wfield_ok ev dv) wfs"
    and body: "body = concat (map (wfield_bytes ev) wfs)"
    and pt: "length packet_type \<le> 4"
    and pid: "0 \<le> packet_id" "packet_id < 2 ^ 32"
    and unix: "0 \<le> unix" "unix < 2 ^ 32"
    and nano: "0 \<le> nano" "nano < 2 ^ 32"
    and ft: "length format_tag = 4"
    and cs: "length checksum = 4"
    and fit: "(40 + length body) div 4 < 256 ^ 4"
  shows "decode_packet dv utd
           (wire_packet packet_type packet_id format_tag unix nano info body checksum) =
         Some (concat (map wfield_warnings wfs),
               Inr (PacketData (normalise_identifier packet_type) packet_id (utd unix nano)
                      (pack_s 4 info) (map wfield_decoded wfs)))"
proof -
  define h where "h = wire_header packet_type ((40 + length body) div 4) packet_id format_tag unix nano info"
  define bb where "bb = body @ checksum @ packet_footer_magic"
  have lh: "length h = 32"
    by (simp add: h_def wire_header_def packet_header_magic_def ft)
  have buf: "wire_packet packet_type packet_id format_tag unix nano info body checksum = h @ bb"
    by (simp add: wire_packet_def h_def bb_def)
  have s1: "py_slice (h @ bb) 0 32 = h" by (simp add: py_slice_def lh)
  have s2: "py_slice (h @ bb) 32 (length (h @ bb)) = bb" by (simp add: py_slice_def lh)
  have al: "(40 + length body) mod 4 = 0"
    using wfields_bytes_aligned [of ev wfs] unfolding body by presburger
  have sr: "int ((40 + length body) div 4) * 4 - 32 = int (length body) + 8"
    using words_bytes [OF al] by (simp add: of_nat_mult [symmetric] del: of_nat_mult)
  have cps: "decode_packet_cps dv utd h =
      Inr (int (length body) + 8,
           decode_packet_body dv (normalise_identifier packet_type) packet_id (utd unix nano)
             (pack_s 4 info) (int (length body) + 8))"
    unfolding h_def decode_packet_cps_wire_header [OF pt pid unix nano ft fit] sr ..
  have lbb: "length bb = length body + 8"
    by (simp add: bb_def cs packet_footer_magic_def)
  have df: "decode_fields dv bb 0 (int (length body)) [] [] =
      Some (concat (map wfield_warnings wfs), Inr (map wfield_decoded wfs))"
    using decode_fields_wfields [OF wfs, of "[]" "checksum @ packet_footer_magic" "[]" "[]"]
    by (simp add: bb_def body)
  have u: "unpack_from 8 bb (int (length body)) = Inr (checksum @ packet_footer_magic)"
    by (simp add: unpack_from_def bb_def cs packet_footer_magic_def)
  have body_ok: "decode_packet_body dv (normalise_identifier packet_type) packet_id (utd unix nano)
             (pack_s 4 info) (int (length body) + 8) bb =
      Some (concat (map wfield_warnings wfs),
            Inr (PacketData (normalise_identifier packet_type) packet_id (utd unix nano)
                   (pack_s 4 info) (map wfield_decoded wfs)))"
    by (simp add: decode_packet_body_def lbb df u cs Let_def)
  show ?thesis
    unfolding buf by (simp add: decode_packet_def s1 s2 cps body_ok del: length_append)
qed

subsection \<open>Round trip\<close>

lemma wfield_bytes_to_wfield: "wfield_bytes ev (to_wfield f) = field_bytes ev f"
  by (simp add: wfield_bytes_def to_wfield_def field_bytes_def)

lemma field_size_items: "field_size ev f = 12 + length (items_bytes ev (params_items (fd_params f)))"
  by (simp add: field_size_def items_bytes_params length_concat_params)

lemma params_items_ok:
  "list_all (enc_param_ok ev) ps \<Longrightarrow> list_all (legal_param ev dv) ps \<Longrightarrow>
   list_all (item_ok ev dv) (params_items ps)"
  by (induction ps) (simp_all add: params_items_def)

lemma wfield_ok_to_wfield:
  "enc_field_ok ev f \<Longrightarrow> legal_field ev dv f \<Longrightarrow> wfield_ok ev dv (to_wfield f)"
  by (simp add: wfield_ok_def to_wfield_def enc_field_ok_def legal_field_def params_items_ok
      field_size_items)

lemma foldl_add_item_params:
  "foldl add_item d (params_items ps) =
   foldl (\<lambda>d p. od_setitem (normalise_identifier (fst p)) (snd p) d) d ps"
  by (induction ps arbitrary: d) (simp_all add: params_items_def)

lemma wfield_decoded_to_wfield: "wfield_decoded (to_wfield f) = normalise_field f"
  by (simp add: wfield_decoded_def to_wfield_def normalise_field_def normalise_params_def
      foldl_add_item_params)

lemma item_warnings_params: "concat (map item_warnings (params_items ps)) = []"
  by (induction ps) (simp_all add: params_items_def)

lemma wfield_warnings_to_wfield: "wfield_warnings (to_wfield f) = []"
  by (simp add: wfield_warnings_def to_wfield_def item_warnings_params)

lemma wfields_ok:
  "list_all (enc_field_ok ev) fs \<Longrightarrow> list_all (legal_field ev dv) fs \<Longrightarrow>
   list_all (wfield_ok ev dv) (map to_wfield fs)"
  by (induction fs) (simp_all add: wfield_ok_to_wfield)


subsection \<open>An example packet\<close>

lemma to_le_3: "to_le 3 x = [of_nat (x mod 256), of_nat (x div 256 mod 256), of_nat (x div 256 div 256 mod 256)]"
  by (simp add: numeral_3_eq_3)

lemma to_le_4: "to_le 4 x = [of_nat (x mod 256), of_nat (x div 256 mod 256),
    of_nat (x div 256 div 256 mod 256), of_nat (x div 256 div 256 div 256 mod 256)]"
proof -
  have "to_le 4 x = to_le (Suc 3) x" by simp
  then show ?thesis by (simp only: to_le.simps to_le_3)
qed

lemma replicate_small:
  "replicate 1 x = [x]" "replicate 2 x = [x, x]" "replicate 3 x = [x, x, x]"
  by (simp_all add: numeral_2_eq_2 numeral_3_eq_3)

lemmas encode_eval = replicate_small encode_packet_def pack_I_def pack_B_def pack_s_def to_bytes_def to_le_4 to_le_3
  latin1_encode_def packet_header_magic_def packet_footer_bytes_def slice_assign_def
  spec_encode_value_def Let_def

lemmas decode_eval = decode_packet_def decode_packet_cps_def decode_packet_body_def
  decode_fields.simps decode_params.simps unpack_def unpack_from_def py_slice_def
  packet_header_magic_def packet_footer_bytes_def packet_footer_magic_def decode_identifier_def
  latin1_decode_def rstrip_def spec_decode_value_def Let_def warn_def new_DecodeWarning_def
  new_DecodeError_def raise_def CommandMixin_init_def char_of_def bit_0

lemma example_encoded:
  "encode_packet spec_encode_value (\<lambda>t. t) ''TEST'' 1 (0, 0) [48, 48, 48, 48] example_fields
   = Inr example_packet"
  by (simp add: example_fields_def example_packet_def encode_eval)

lemma example_legal:
  "list_all (legal_field spec_encode_value spec_decode_value) example_fields"
  by (simp add: example_fields_def legal_field_def legal_param_def encoded_def
      spec_encode_value_def spec_decode_value_def pad_len_def to_le_4 latin1_encode_def
      latin1_decode_def char_of_def bit_0)


subsection \<open>The size words of an encoded packet\<close>

lemma concat_split:
  "i < length xs \<Longrightarrow>
   concat (map g xs) = concat (map g (take i xs)) @ g (xs ! i) @ concat (map g (drop (Suc i) xs))"
proof -
  assume "i < length xs"
  then have "xs = take i xs @ xs ! i # drop (Suc i) xs" by (rule id_take_nth_drop)
  then have "concat (map g xs) = concat (map g (take i xs @ xs ! i # drop (Suc i) xs))" by simp
  then show ?thesis by simp
qed

lemma length_concat_fields:
  "length (concat (map (field_bytes ev) fs)) = sum_list (map (field_size ev) fs)"
  by (simp add: length_concat comp_def)

lemma slices_at:
  assumes "buf = pre @ (a @ b @ c) @ post" "length a = 4" "length b = 3"
  shows "py_slice buf (length pre) (length pre + 4) = a"
    and "py_slice buf (length pre + 4) (length pre + 7) = b"
proof -
  have "buf = pre @ a @ (b @ c @ post)" using assms(1) by simp
  then show "py_slice buf (length pre) (length pre + 4) = a"
    by (simp add: py_slice_def assms(2))
  have "buf = (pre @ a) @ b @ (c @ post)" using assms(1) by simp
  then have "py_slice buf (length (pre @ a)) (length (pre @ a) + 3) = b"
    by (simp add: py_slice_def assms(3))
  then show "py_slice buf (length pre + 4) (length pre + 7) = b"
    by (simp add: assms(2) add.assoc)
qed

lemma field_size_aligned: "field_size ev f mod 4 = 0"
  unfolding field_size_items using items_bytes_aligned [of ev "params_items (fd_params f)"]
  by presburger

lemma fields_size_aligned: "sum_list (map (field_size ev) fs) mod 4 = 0"
  by (induction fs) (simp_all add: field_size_aligned mod_add_eq [symmetric])

lemma length_wire_header:
  "length format_tag = 4 \<Longrightarrow>
   length (wire_header packet_type size_words packet_id format_tag unix nano info) = 32"
  by (simp add: wire_header_def packet_header_magic_def)

lemma encode_packet_field_at:
  assumes enc: "encode_packet ev dtu packet_type packet_id timestamp info fs = Inr buf"
    and i: "i < length fs"
  shows "\<exists>pre post. buf = pre @ field_bytes ev (fs ! i) @ post \<and> length pre = field_offset ev fs i"
proof -
  let ?body = "concat (map (field_bytes ev) fs)"
  let ?h = "wire_header packet_type ((40 + length ?body) div 4) packet_id [1, 0, 0, 0]
              (fst (dtu timestamp)) (snd (dtu timestamp)) info"
  from encode_packet_layout [OF enc]
  have buf: "buf = ?h @ ?body @ [0, 0, 0, 0] @ packet_footer_magic"
    by (simp add: wire_packet_def)
  have lh: "length ?h = 32" by (simp add: wire_header_def packet_header_magic_def)
  let ?pre = "?h @ concat (map (field_bytes ev) (take i fs))"
  let ?post = "concat (map (field_bytes ev) (drop (Suc i) fs)) @ [0, 0, 0, 0] @ packet_footer_magic"
  have "buf = ?pre @ field_bytes ev (fs ! i) @ ?post"
    unfolding buf by (subst concat_split [OF i]) simp
  moreover have "length ?pre = field_offset ev fs i"
    by (simp add: length_wire_header length_concat_fields field_offset_def)
  ultimately show ?thesis by blast
qed

text \<open>
  C2: in every packet that \<open>encode_packet\<close> returns, the total size word (bytes 8 to 12)
  times 4 is the length of the buffer; at the offset of each field stands its name, and
  the size word after it times 4 is the size of the field's header and all its params
  with their padding; at the offset of each param stands its name, and the size word
  after it times 4 is 8 plus the length of the payload plus the length of the padding.
\<close>

theorem encode_packet_sizes:
  assumes enc: "encode_packet ev dtu packet_type packet_id timestamp info fs = Inr buf"
  shows "from_bytes (py_slice buf 8 12) * 4 = length buf
    \<and> (\<forall>i<length fs.
          py_slice buf (field_offset ev fs i) (field_offset ev fs i + 4)
            = pack_s 4 (latin1_encode (fd_name (fs ! i)))
          \<and> from_bytes (py_slice buf (field_offset ev fs i + 4) (field_offset ev fs i + 7)) * 4
            = field_size ev (fs ! i))
    \<and> (\<forall>i<length fs. \<forall>j<length (fd_params (fs ! i)).
          py_slice buf (param_offset ev fs i j) (param_offset ev fs i j + 4)
            = pack_s 4 (latin1_encode (fst (fd_params (fs ! i) ! j)))
          \<and> from_bytes (py_slice buf (param_offset ev fs i j + 4) (param_offset ev fs i j + 7)) * 4
            = 8 + length (snd (encoded ev (snd (fd_params (fs ! i) ! j))))
                + pad_len (8 + length (snd (encoded ev (snd (fd_params (fs ! i) ! j))))))"
proof (intro conjI allI impI)
  let ?body = "concat (map (field_bytes ev) fs)"
  note lay = encode_packet_layout [OF enc]
  from lay have ok: "enc_packet_ok ev packet_id (fst (dtu timestamp)) (snd (dtu timestamp)) fs"
    by simp
  from ok have fit: "(40 + length ?body) div 4 < 256 ^ 4" and fok: "list_all (enc_field_ok ev) fs"
    by (simp_all add: enc_packet_ok_def)
  show "from_bytes (py_slice buf 8 12) * 4 = length buf"
  proof -
    define H1 where "H1 = packet_header_magic @ pack_s 4 (latin1_encode packet_type)"
    define sz where "sz = to_le 4 ((40 + length ?body) div 4)"
    define R where "R = to_le 4 (nat packet_id) @ [1, 0, 0, 0] @ to_le 4 (nat (fst (dtu timestamp)))
        @ to_le 4 (nat (snd (dtu timestamp))) @ pack_s 4 info @ ?body @ [0, 0, 0, 0] @ packet_footer_magic"
    from lay have buf: "buf = H1 @ sz @ R"
      by (simp add: wire_packet_def wire_header_def H1_def sz_def R_def)
    have "py_slice buf 8 12 = sz"
      unfolding buf by (rule py_slice_mid) (simp_all add: H1_def sz_def packet_header_magic_def)
    moreover have "length buf = 40 + length ?body"
      by (simp add: buf H1_def sz_def R_def packet_header_magic_def packet_footer_magic_def)
    moreover have "(40 + length ?body) mod 4 = 0"
      using fields_size_aligned [of ev fs] unfolding length_concat_fields by presburger
    ultimately show ?thesis
      using from_bytes_to_le [OF fit] by (simp add: sz_def words_bytes)
  qed
next
  fix i assume i: "i < length fs"
  obtain field_name field_id params where f: "fs ! i = FieldData field_name field_id params"
    by (cases "fs ! i")
  from encode_packet_field_at [OF enc i] obtain pre post where
    buf: "buf = pre @ field_bytes ev (fs ! i) @ post" and lp: "length pre = field_offset ev fs i"
    by blast
  define a where "a = pack_s 4 (latin1_encode (fd_name (fs ! i)))"
  define b where "b = to_le 3 (field_size ev (fs ! i) div 4)"
  define c where "c = [0 :: byte] @ to_le 4 (nat (fd_id (fs ! i)))
      @ items_bytes ev (params_items (fd_params (fs ! i)))"
  have la: "length a = 4" and lb: "length b = 3" by (simp_all add: a_def b_def)
  have "buf = pre @ (a @ b @ c) @ post"
    by (simp add: buf field_bytes_def wire_field_def a_def b_def c_def field_size_items)
  note s = slices_at [OF this la lb, unfolded lp]
  show "py_slice buf (field_offset ev fs i) (field_offset ev fs i + 4)
          = pack_s 4 (latin1_encode (fd_name (fs ! i)))"
    using s(1) by (simp add: a_def)
  note lay = encode_packet_layout [OF enc]
  then have "list_all (enc_field_ok ev) fs" by (simp add: enc_packet_ok_def)
  with i have "enc_field_ok ev (fs ! i)" by (simp add: list_all_length)
  then have fit: "field_size ev (fs ! i) div 4 < 256 ^ 3" by (simp add: enc_field_ok_def)
  show "from_bytes (py_slice buf (field_offset ev fs i + 4) (field_offset ev fs i + 7)) * 4
          = field_size ev (fs ! i)"
    using s(2) from_bytes_to_le [OF fit] words_bytes [OF field_size_aligned [of ev "fs ! i"]]
    by (simp add: a_def b_def)
next
  fix i j assume i: "i < length fs" and j: "j < length (fd_params (fs ! i))"
  let ?ps = "fd_params (fs ! i)"
  let ?p = "?ps ! j"
  from encode_packet_field_at [OF enc i] obtain pre post where
    buf: "buf = pre @ field_bytes ev (fs ! i) @ post" and lp: "length pre = field_offset ev fs i"
    by blast
  define fh where "fh = pack_s 4 (latin1_encode (fd_name (fs ! i)))
      @ to_le 3 (field_size ev (fs ! i) div 4) @ [0 :: byte] @ to_le 4 (nat (fd_id (fs ! i)))"
  have lfh: "length fh = 12" by (simp add: fh_def)
  define pre' where "pre' = pre @ fh @ concat (map (param_bytes ev) (take j ?ps))"
  define post' where "post' = concat (map (param_bytes ev) (drop (Suc j) ?ps)) @ post"
  have fb: "field_bytes ev (fs ! i) = fh @ concat (map (param_bytes ev) ?ps)"
    by (simp add: field_bytes_def wire_field_def fh_def field_size_items items_bytes_params)
  have lp': "length pre' = param_offset ev fs i j"
    by (simp add: pre'_def lp lfh param_offset_def length_concat_params)
  define a where "a = pack_s 4 (latin1_encode (fst ?p))"
  define b where "b = to_le 3 (param_size ev ?p div 4)"
  define c where "c = [of_int (fst (encoded ev (snd ?p))) :: byte] @ snd (encoded ev (snd ?p))
      @ replicate (pad_len (8 + length (snd (encoded ev (snd ?p))))) 0"
  have pb: "param_bytes ev ?p = a @ b @ c"
    by (simp add: param_bytes_def a_def b_def c_def)
  have "buf = pre' @ (a @ b @ c) @ post'"
    unfolding buf fb pb [symmetric] pre'_def post'_def
    by (subst concat_split [OF j]) simp
  have la: "length a = 4" and lb: "length b = 3" by (simp_all add: a_def b_def)
  note s = slices_at [OF \<open>buf = pre' @ (a @ b @ c) @ post'\<close> la lb, unfolded lp']
  show "py_slice buf (param_offset ev fs i j) (param_offset ev fs i j + 4)
          = pack_s 4 (latin1_encode (fst ?p))"
    using s(1) by (simp add: a_def)
  note lay = encode_packet_layout [OF enc]
  then have "list_all (enc_field_ok ev) fs" by (simp add: enc_packet_ok_def)
  with i have "enc_field_ok ev (fs ! i)" by (simp add: list_all_length)
  then have "list_all (enc_param_ok ev) ?ps" by (simp add: enc_field_ok_def)
  with j have "enc_param_ok ev ?p" by (simp add: list_all_length)
  then have fit: "param_size ev ?p div 4 < 256 ^ 3"
    by (cases "ev (snd ?p)") (simp_all add: enc_param_ok_def)
  have "from_bytes (py_slice buf (param_offset ev fs i j + 4) (param_offset ev fs i j + 7)) * 4
          = param_size ev ?p"
    using s(2) from_bytes_to_le [OF fit] words_bytes [OF param_size_aligned [of ev ?p]]
    by (simp add: a_def b_def)
  then show "from_bytes (py_slice buf (param_offset ev fs i j + 4) (param_offset ev fs i j + 7)) * 4
          = 8 + length (snd (encoded ev (snd ?p))) + pad_len (8 + length (snd (encoded ev (snd ?p))))"
    by (simp add: param_size_def Let_def)
qed

text \<open>
  The sizes of the example packet: 76 bytes, a field of 36 bytes at offset 32, its second
  param of 12 bytes at offset 56.
\<close>

theorem encode_packet_sizes_witness:
  "from_bytes (py_slice example_packet 8 12) * 4 = length example_packet
   \<and> length example_packet = 76
   \<and> field_offset spec_encode_value example_fields 0 = 32
   \<and> py_slice example_packet 32 36 = [69, 67, 72, 79]
   \<and> from_bytes (py_slice example_packet 36 39) * 4 = 36
   \<and> param_offset spec_encode_value example_fields 0 1 = 56
   \<and> py_slice example_packet 56 60 = [84, 32, 0, 0]
   \<and> from_bytes (py_slice example_packet 60 63) * 4 = 8 + 4 + 0"
proof -
  note sizes = encode_packet_sizes [OF example_encoded]
  have fo: "field_offset spec_encode_value example_fields 0 = 32"
    by (simp add: field_offset_def)
  have po: "param_offset spec_encode_value example_fields 0 1 = 56"
    by (simp add: param_offset_def field_offset_def example_fields_def param_size_def encoded_def
        spec_encode_value_def pad_len_def to_le_4 Let_def)
  have len: "length example_packet = 76" by (simp add: example_packet_def)
  from sizes have total: "from_bytes (py_slice example_packet 8 12) * 4 = length example_packet"
    by (rule conjunct1)
  from sizes have "0 < length example_fields \<longrightarrow>
      py_slice example_packet (field_offset spec_encode_value example_fields 0)
        (field_offset spec_encode_value example_fields 0 + 4)
        = pack_s 4 (latin1_encode (fd_name (example_fields ! 0)))
      \<and> from_bytes (py_slice example_packet (field_offset spec_encode_value example_fields 0 + 4)
          (field_offset spec_encode_value example_fields 0 + 7)) * 4
        = field_size spec_encode_value (example_fields ! 0)"
    by blast
  then have field: "py_slice example_packet 32 36 = [69, 67, 72, 79]
      \<and> from_bytes (py_slice example_packet 36 39) * 4 = 36"
    unfolding fo
    by (simp add: example_fields_def field_size_def param_size_def encoded_def
        spec_encode_value_def pad_len_def to_le_4 Let_def pack_s_def latin1_encode_def)
  from sizes have "0 < length example_fields \<longrightarrow> 1 < length (fd_params (example_fields ! 0)) \<longrightarrow>
      py_slice example_packet (param_offset spec_encode_value example_fields 0 1)
        (param_offset spec_encode_value example_fields 0 1 + 4)
        = pack_s 4 (latin1_encode (fst (fd_params (example_fields ! 0) ! 1)))
      \<and> from_bytes (py_slice example_packet (param_offset spec_encode_value example_fields 0 1 + 4)
          (param_offset spec_encode_value example_fields 0 1 + 7)) * 4
        = 8 + length (snd (encoded spec_encode_value (snd (fd_params (example_fields ! 0) ! 1))))
            + pad_len (8 + length (snd (encoded spec_encode_value
                (snd (fd_params (example_fields ! 0) ! 1)))))"
    by blast
  then have param: "py_slice example_packet 56 60 = [84, 32, 0, 0]
      \<and> from_bytes (py_slice example_packet 60 63) * 4 = 8 + 4 + 0"
    unfolding po
    by (simp add: example_fields_def encoded_def spec_encode_value_def pad_len_def
        pack_s_def latin1_encode_def replicate_small)
  from total len fo field po param show ?thesis by simp
qed

subsection \<open>The format tag and the checksum\<close>

lemma decode_packet_cps_format_tag:
  assumes a: "take 16 h' = take 16 h" and b: "drop 20 h' = drop 20 h" and l: "length h' = length h"
  shows "decode_packet_cps dv utd h' = decode_packet_cps dv utd h"
proof -
  have t: "take 4 h' = take 4 h" "take 4 (drop 4 h') = take 4 (drop 4 h)"
    "take 4 (drop 8 h') = take 4 (drop 8 h)" "take 4 (drop 12 h') = take 4 (drop 12 h)"
  proof -
    have "take 4 (take 16 h') = take 4 (take 16 h)" using a by simp
    then show "take 4 h' = take 4 h" by simp
    have "take 4 (drop 4 (take 16 h')) = take 4 (drop 4 (take 16 h))" using a by simp
    then show "take 4 (drop 4 h') = take 4 (drop 4 h)" by (simp add: drop_take)
    have "take 4 (drop 8 (take 16 h')) = take 4 (drop 8 (take 16 h))" using a by simp
    then show "take 4 (drop 8 h') = take 4 (drop 8 h)" by (simp add: drop_take)
    have "take 4 (drop 12 (take 16 h')) = take 4 (drop 12 (take 16 h))" using a by simp
    then show "take 4 (drop 12 h') = take 4 (drop 12 h)" by (simp add: drop_take)
  qed
  have d: "drop 20 h' = drop 20 h" "drop 24 h' = drop 24 h" "drop 28 h' = drop 28 h"
  proof -
    show "drop 20 h' = drop 20 h" by (rule b)
    have "drop 4 (drop 20 h') = drop 4 (drop 20 h)" using b by simp
    then show "drop 24 h' = drop 24 h" by simp
    have "drop 8 (drop 20 h') = drop 8 (drop 20 h)" using b by simp
    then show "drop 28 h' = drop 28 h" by simp
  qed
  show ?thesis
    by (simp add: decode_packet_cps_def unpack_def l t d Let_def del: from_bytes.simps)
qed

lemma decode_packet_format_tag:
  assumes ft: "length format_tag = 4" and len: "20 \<le> length buf"
  shows "decode_packet dv utd (slice_assign buf 16 20 format_tag) = decode_packet dv utd buf"
proof -
  let ?buf' = "slice_assign buf 16 20 format_tag"
  have l: "length ?buf' = length buf" using ft len by (simp add: slice_assign_def)
  have body: "py_slice ?buf' 32 (length ?buf') = py_slice buf 32 (length buf)"
    using ft len by (simp add: py_slice_def slice_assign_def l [unfolded slice_assign_def])
  have t16: "take 16 (py_slice ?buf' 0 32) = take 16 (py_slice buf 0 32)"
    using len by (simp add: py_slice_def slice_assign_def min_def)
  have d20: "drop 20 (py_slice ?buf' 0 32) = drop 20 (py_slice buf 0 32)"
    using ft len by (simp add: py_slice_def slice_assign_def drop_take)
  have lh: "length (py_slice ?buf' 0 32) = length (py_slice buf 0 32)"
    using l by (simp add: py_slice_def)
  show ?thesis
    unfolding decode_packet_def body decode_packet_cps_format_tag [OF t16 d20 lh] ..
qed

lemma decode_wire_packet_fields:
  assumes ok: "enc_packet_ok ev packet_id unix nano fs"
    and legal: "list_all (legal_field ev dv) fs"
    and pt: "length packet_type \<le> 4"
    and ft: "length format_tag = 4"
    and cs: "length checksum = 4"
  shows "decode_packet dv utd
           (wire_packet packet_type packet_id format_tag unix nano info
              (concat (map (field_bytes ev) fs)) checksum) =
         Some ([], Inr (PacketData (normalise_identifier packet_type) packet_id (utd unix nano)
                          (pack_s 4 info) (map normalise_field fs)))"
proof -
  let ?body = "concat (map (field_bytes ev) fs)"
  have body: "?body = concat (map (wfield_bytes ev) (map to_wfield fs))"
    by (simp add: comp_def wfield_bytes_to_wfield)
  from ok have wok: "list_all (wfield_ok ev dv) (map to_wfield fs)"
    using legal by (simp add: enc_packet_ok_def wfields_ok)
  have "decode_packet dv utd
          (wire_packet packet_type packet_id format_tag unix nano info ?body checksum) =
      Some (concat (map wfield_warnings (map to_wfield fs)),
            Inr (PacketData (normalise_identifier packet_type) packet_id (utd unix nano)
                   (pack_s 4 info) (map wfield_decoded (map to_wfield fs))))"
    by (rule decode_wire_packet [OF wok body pt _ _ _ _ _ _ ft cs])
      (use ok in \<open>simp_all add: enc_packet_ok_def\<close>)
  then show ?thesis
    by (simp add: comp_def wfield_decoded_to_wfield wfield_warnings_to_wfield)
qed

lemma decode_packet_checksum:
  assumes enc: "encode_packet ev dtu packet_type packet_id timestamp info fs = Inr buf"
    and pt: "length packet_type \<le> 4"
    and legal: "list_all (legal_field ev dv) fs"
    and cs: "length checksum = 4"
  shows "decode_packet dv utd (slice_assign buf (length buf - 8) (length buf - 4) checksum) =
         decode_packet dv utd buf"
proof -
  let ?body = "concat (map (field_bytes ev) fs)"
  let ?unix = "fst (dtu timestamp)" and ?nano = "snd (dtu timestamp)"
  define P where "P = wire_header packet_type ((40 + length ?body) div 4) packet_id [1, 0, 0, 0]
      ?unix ?nano info @ ?body"
  from encode_packet_layout [OF enc]
  have buf: "buf = wire_packet packet_type packet_id [1, 0, 0, 0] ?unix ?nano info ?body [0, 0, 0, 0]"
    and ok: "enc_packet_ok ev packet_id ?unix ?nano fs"
    by simp_all
  have buf': "buf = P @ [0, 0, 0, 0] @ packet_footer_magic"
    by (simp add: buf wire_packet_def P_def)
  have lb: "length buf - 8 = length P" "length buf - 4 = length P + 4"
    by (simp_all add: buf' packet_footer_magic_def)
  have "slice_assign (P @ [0, 0, 0, 0] @ packet_footer_magic) (length P) (length P + 4) checksum =
        P @ checksum @ packet_footer_magic"
    by (rule slice_assign_mid) simp_all
  then have "slice_assign buf (length buf - 8) (length buf - 4) checksum =
        wire_packet packet_type packet_id [1, 0, 0, 0] ?unix ?nano info ?body checksum"
    unfolding lb by (simp add: buf' wire_packet_def P_def)
  then show ?thesis
    unfolding buf
    by (simp add: decode_wire_packet_fields [OF ok legal pt _ cs]
        decode_wire_packet_fields [OF ok legal pt])
qed

text \<open>
  C10, as the code has it: the decoder never reads the format tag, so replacing the 4 bytes at
  offset 16 of any buffer changes nothing of what decode_packet does with it; and it does
  not read the checksum of a packet that \<open>encode_packet\<close> wrote from legal fields, so
  replacing the 4 bytes before the footer magic of such a packet changes nothing.
\<close>

theorem decode_ignores_format_tag_and_checksum:
  "(length format_tag = 4 \<and> 20 \<le> length buf \<longrightarrow>
      decode_packet dv utd (slice_assign buf 16 20 format_tag) = decode_packet dv utd buf)
   \<and> (encode_packet ev dtu packet_type packet_id timestamp info fs = Inr buf
        \<and> length packet_type \<le> 4 \<and> list_all (legal_field ev dv) fs \<and> length checksum = 4 \<longrightarrow>
      decode_packet dv utd (slice_assign buf (length buf - 8) (length buf - 4) checksum)
        = decode_packet dv utd buf)"
  using decode_packet_format_tag [of format_tag buf dv utd]
    decode_packet_checksum [of ev dtu packet_type packet_id timestamp info fs buf dv checksum utd]
  by blast

lemmas decode_eval' = decode_packet_def decode_packet_cps_def decode_packet_body_def
  unpack_def unpack_from_def py_slice_def
  packet_header_magic_def packet_footer_bytes_def packet_footer_magic_def decode_identifier_def
  latin1_decode_def rstrip_def spec_decode_value_def Let_def warn_def new_DecodeWarning_def
  new_DecodeError_def raise_def CommandMixin_init_def char_of_def bit_0

text \<open>
  C10 as stated fails: on a packet whose field sizes do not add up the decoder does read
  the checksum bytes. The two packets differ in the checksum only and fail differently:
  the total size leaves 4 bytes for the fields, the header of the field \<open>ABCD\<close>
  takes 12, and its size word and type byte are the checksum. With the checksum
  00 00 00 00 the field has size 0 and the decoder reaches its field overflow check,
  where the construction of the \<open>DecodeError\<close> raises \<open>TypeError\<close>; with
  04 00 00 00 the field has 16 bytes and the decoder unpacks a param header past the end
  of the buffer, a \<open>struct.error\<close>.
\<close>

theorem decode_checksum_counterexample:
  "decode_packet spec_decode_value Pair
     ([0xDD, 0xCC, 0xBB, 0xAA, 84, 69, 83, 84, 11, 0, 0, 0, 1, 0, 0, 0, 1, 0, 0, 0,
       0, 0, 0, 0, 0, 0, 0, 0, 48, 48, 48, 48] @ [65, 66, 67, 68]
      @ [0, 0, 0, 0] @ [0xAA, 0xBB, 0xCC, 0xDD])
     = Some ([], Inl TypeError)
   \<and> decode_packet spec_decode_value Pair
     ([0xDD, 0xCC, 0xBB, 0xAA, 84, 69, 83, 84, 11, 0, 0, 0, 1, 0, 0, 0, 1, 0, 0, 0,
       0, 0, 0, 0, 0, 0, 0, 0, 48, 48, 48, 48] @ [65, 66, 67, 68]
      @ [4, 0, 0, 0] @ [0xAA, 0xBB, 0xCC, 0xDD])
     = Some ([], Inl StructError)"
  by (simp add: decode_eval' decode_fields.simps decode_params.simps)

text \<open>
  With the example codec the checksum can also decide between success and failure: the
  checksum bytes are the size and type of the param \<open>VALU\<close>.
\<close>

lemma decode_checksum_success_or_failure:
  "decode_packet spec_decode_value Pair
     ([0xDD, 0xCC, 0xBB, 0xAA, 84, 69, 83, 84, 14, 0, 0, 0, 1, 0, 0, 0, 1, 0, 0, 0,
       0, 0, 0, 0, 0, 0, 0, 0, 48, 48, 48, 48]
      @ [69, 67, 72, 79, 4, 0, 0, 0, 7, 0, 0, 0, 86, 65, 76, 85]
      @ [1, 0, 0, 1] @ [0xAA, 0xBB, 0xCC, 0xDD])
     = Some ([], Inr (PacketData ''TEST'' 1 (0, 0) [48, 48, 48, 48]
                        [FieldData ''ECHO'' 7 [(''VALU'', PInt 0)]]))
   \<and> decode_packet spec_decode_value Pair
     ([0xDD, 0xCC, 0xBB, 0xAA, 84, 69, 83, 84, 14, 0, 0, 0, 1, 0, 0, 0, 1, 0, 0, 0,
       0, 0, 0, 0, 0, 0, 0, 0, 48, 48, 48, 48]
      @ [69, 67, 72, 79, 4, 0, 0, 0, 7, 0, 0, 0, 86, 65, 76, 85]
      @ [2, 0, 0, 1] @ [0xAA, 0xBB, 0xCC, 0xDD])
     = Some ([], Inl TypeError)"
  by (simp add: decode_eval' decode_fields.simps decode_params.simps)

text \<open>
  The example packet decodes the same with the format tag 09 09 09 09 and with the
  checksum 01 02 03 04.
\<close>

theorem decode_ignores_format_tag_and_checksum_witness:
  "decode_packet spec_decode_value Pair (slice_assign example_packet 16 20 [9, 9, 9, 9])
     = decode_packet spec_decode_value Pair example_packet
   \<and> decode_packet spec_decode_value Pair (slice_assign example_packet 68 72 [1, 2, 3, 4])
     = decode_packet spec_decode_value Pair example_packet"
proof -
  have len: "length example_packet = 76" by (simp add: example_packet_def)
  have legal: "list_all (legal_field spec_encode_value spec_decode_value) example_fields"
    by (rule example_legal)
  show ?thesis
    using decode_ignores_format_tag_and_checksum
      [of "[9, 9, 9, 9]" example_packet spec_decode_value Pair spec_encode_value "\<lambda>t. t" "''TEST''" 1
        "(0, 0)" "[48, 48, 48, 48]" example_fields "[1, 2, 3, 4]"]
      example_encoded legal
    by (simp add: len)
qed

subsection \<open>The embedded footer\<close>

lemma words_plus_2: "(n::nat) mod 4 = 0 \<Longrightarrow> (n + 8) div 4 = n div 4 + 2"
  by presburger

lemma items_bytes_append:
  "items_bytes ev (xs @ ys) = items_bytes ev xs @ items_bytes ev ys"
  by (simp add: items_bytes_def)

lemma items_bytes_footer_items:
  "items_bytes ev (footer_items ps j) =
   concat (map (param_bytes ev) (take j ps)) @ packet_footer_bytes
     @ concat (map (param_bytes ev) (drop j ps))"
  by (simp add: footer_items_def items_bytes_def params_items_def comp_def)

lemma length_footer_items:
  "length (items_bytes ev (footer_items ps j)) = sum_list (map (param_size ev) ps) + 8"
proof -
  have "sum_list (map (param_size ev) ps) =
        sum_list (map (param_size ev) (take j ps)) + sum_list (map (param_size ev) (drop j ps))"
    by (metis append_take_drop_id map_append sum_list_append)
  then show ?thesis
    by (simp add: items_bytes_footer_items length_concat_params)
qed

lemma embed_footer_layout:
  assumes enc: "encode_packet ev dtu packet_type packet_id timestamp info fs = Inr buf"
    and i: "i < length fs"
  shows "embed_footer buf (field_offset ev fs i) (param_offset ev fs i j) =
         wire_packet packet_type packet_id [1, 0, 0, 0] (fst (dtu timestamp)) (snd (dtu timestamp)) info
           (concat (map (field_bytes ev) (take i fs))
              @ wire_field ev (fd_name (fs ! i)) (fd_id (fs ! i)) (footer_items (fd_params (fs ! i)) j)
              @ concat (map (field_bytes ev) (drop (Suc i) fs)))
           [0, 0, 0, 0]"
proof -
  let ?f = "fs ! i"
  let ?ps = "fd_params ?f"
  let ?body = "concat (map (field_bytes ev) fs)"
  let ?unix = "fst (dtu timestamp)" and ?nano = "snd (dtu timestamp)"
  define W where "W = (40 + length ?body) div 4"
  define fw where "fw = field_size ev ?f div 4"
  define H1 where "H1 = packet_header_magic @ pack_s 4 (latin1_encode packet_type)"
  define H2 where "H2 = to_le 4 (nat packet_id) @ [1, 0, 0, 0] @ to_le 4 (nat ?unix)
      @ to_le 4 (nat ?nano) @ pack_s 4 info"
  define B1 where "B1 = concat (map (field_bytes ev) (take i fs))"
  define B2 where "B2 = concat (map (field_bytes ev) (drop (Suc i) fs))"
  define n4 where "n4 = pack_s 4 (latin1_encode (fd_name ?f))"
  define R0 where "R0 = [0 :: byte] @ to_le 4 (nat (fd_id ?f))"
  define P1 where "P1 = concat (map (param_bytes ev) (take j ?ps))"
  define P2 where "P2 = concat (map (param_bytes ev) (drop j ?ps))"
  define T where "T = [0, 0, 0, 0] @ packet_footer_magic"
  define Q where "Q = packet_footer_bytes"
  note lay = encode_packet_layout [OF enc]
  from lay have ok: "enc_packet_ok ev packet_id ?unix ?nano fs" by simp
  then have Wfit: "W < 256 ^ 4" and fok: "list_all (enc_field_ok ev) fs"
    by (simp_all add: enc_packet_ok_def W_def)
  from fok i have "enc_field_ok ev ?f" by (simp add: list_all_length)
  then have fwfit: "fw < 256 ^ 3" by (simp add: enc_field_ok_def fw_def)
  have lens: "length H1 = 8" "length H2 = 20" "length n4 = 4" "length R0 = 5" "length Q = 8"
    by (simp_all add: H1_def H2_def n4_def R0_def Q_def packet_header_magic_def)
  have ps: "concat (map (param_bytes ev) ?ps) = P1 @ P2"
    unfolding P1_def P2_def by (metis append_take_drop_id concat_append map_append)
  have fb: "field_bytes ev ?f = n4 @ to_le 3 fw @ R0 @ P1 @ P2"
    by (simp add: field_bytes_def wire_field_def n4_def fw_def R0_def field_size_items
        items_bytes_params ps)
  have body: "?body = B1 @ field_bytes ev ?f @ B2"
    unfolding B1_def B2_def by (rule concat_split [OF i])
  from lay have buf: "buf = H1 @ to_le 4 W @ H2 @ B1 @ n4 @ to_le 3 fw @ R0 @ P1 @ P2 @ B2 @ T"
    unfolding wire_packet_def wire_header_def W_def [symmetric]
    by (simp add: body fb H1_def H2_def T_def)
  have fo: "field_offset ev fs i = 32 + length B1"
    by (simp add: field_offset_def B1_def length_concat_fields)
  have po: "param_offset ev fs i j = 32 + length B1 + 12 + length P1"
    by (simp add: param_offset_def fo P1_def length_concat_params)
  define X where "X = H1 @ to_le 4 W @ H2 @ B1 @ n4 @ to_le 3 fw @ R0 @ P1"
  have lX: "length X = param_offset ev fs i j" by (simp add: X_def lens po)
  have bufX: "buf = X @ (P2 @ B2 @ T)" by (simp add: buf X_def)
  have s1: "take (param_offset ev fs i j) buf @ Q @ drop (param_offset ev fs i j) buf =
            X @ Q @ P2 @ B2 @ T"
    unfolding lX [symmetric] bufX by simp
  define Y where "Y = H1 @ to_le 4 W @ H2 @ B1 @ n4"
  define Z where "Z = R0 @ P1 @ Q @ P2 @ B2 @ T"
  have lY: "length Y = field_offset ev fs i + 4" by (simp add: Y_def lens fo)
  have b1: "X @ Q @ P2 @ B2 @ T = Y @ to_le 3 fw @ Z" by (simp add: X_def Y_def Z_def)
  have s2: "py_slice (Y @ to_le 3 fw @ Z) (field_offset ev fs i + 4) (field_offset ev fs i + 7)
            = to_le 3 fw"
    by (rule py_slice_mid) (simp_all add: lY)
  have s3: "slice_assign (Y @ to_le 3 fw @ Z) (field_offset ev fs i + 4) (field_offset ev fs i + 7)
              (to_le 3 (fw + 2)) = Y @ to_le 3 (fw + 2) @ Z"
    by (rule slice_assign_mid) (simp_all add: lY)
  define V where "V = H2 @ B1 @ n4 @ to_le 3 (fw + 2) @ Z"
  have b2: "Y @ to_le 3 (fw + 2) @ Z = H1 @ to_le 4 W @ V" by (simp add: Y_def V_def)
  have s4: "py_slice (H1 @ to_le 4 W @ V) 8 12 = to_le 4 W"
    by (rule py_slice_mid) (simp_all add: lens)
  have s5: "slice_assign (H1 @ to_le 4 W @ V) 8 12 (to_le 4 (W + 2)) = H1 @ to_le 4 (W + 2) @ V"
    by (rule slice_assign_mid) (simp_all add: lens)
  have lhs: "embed_footer buf (field_offset ev fs i) (param_offset ev fs i j) =
             H1 @ to_le 4 (W + 2) @ V"
    unfolding embed_footer_def Let_def Q_def [symmetric] s1 b1 s2 s3 b2 s4
      from_bytes_to_le [OF fwfit] from_bytes_to_le [OF Wfit] s5 ..
  define F' where "F' = wire_field ev (fd_name ?f) (fd_id ?f) (footer_items ?ps j)"
  have fsz: "field_size ev ?f = 12 + sum_list (map (param_size ev) ?ps)"
    by (simp add: field_size_def)
  have "(12 + length (items_bytes ev (footer_items ?ps j))) div 4 = fw + 2"
    unfolding length_footer_items fw_def
    using words_plus_2 [OF field_size_aligned [of ev ?f]] by (simp add: fsz add.assoc)
  then have F': "F' = n4 @ to_le 3 (fw + 2) @ R0 @ P1 @ Q @ P2"
    by (simp add: F'_def wire_field_def n4_def R0_def items_bytes_footer_items P1_def P2_def Q_def)
  have lF': "length F' = length (field_bytes ev ?f) + 8"
    by (simp add: F' fb lens del: length_field_bytes)
  have lbody': "length (B1 @ F' @ B2) = length ?body + 8"
    by (simp add: body lF' del: length_field_bytes)
  have al: "(40 + length ?body) mod 4 = 0"
    using fields_size_aligned [of ev fs] unfolding length_concat_fields by presburger
  have W': "(40 + length (B1 @ F' @ B2)) div 4 = W + 2"
    unfolding lbody' W_def using words_plus_2 [OF al] by (simp add: add.assoc)
  have rhs: "wire_packet packet_type packet_id [1, 0, 0, 0] ?unix ?nano info (B1 @ F' @ B2) [0, 0, 0, 0]
             = H1 @ to_le 4 (W + 2) @ V"
    unfolding wire_packet_def wire_header_def W'
    by (simp add: H1_def V_def H2_def F' Z_def T_def)
  show ?thesis
    unfolding lhs rhs [symmetric] F'_def B1_def B2_def ..
qed

lemma footer_items_ok:
  assumes "list_all (enc_param_ok ev) ps" "list_all (legal_param ev dv) ps"
  shows "list_all (item_ok ev dv) (footer_items ps j)"
proof -
  have "list_all (enc_param_ok ev) (take j ps)" "list_all (legal_param ev dv) (take j ps)"
    "list_all (enc_param_ok ev) (drop j ps)" "list_all (legal_param ev dv) (drop j ps)"
    using assms by (auto simp: list_all_iff dest: in_set_takeD in_set_dropD)
  then show ?thesis
    by (simp add: footer_items_def params_items_ok)
qed

lemma footer_items_decoded:
  "foldl add_item [] (footer_items ps j) = normalise_params ps"
proof -
  let ?g = "\<lambda>d p. od_setitem (normalise_identifier (fst p)) (snd p) d"
  have "foldl add_item [] (footer_items ps j) = foldl ?g (foldl ?g [] (take j ps)) (drop j ps)"
    by (simp add: footer_items_def foldl_add_item_params)
  also have "\<dots> = foldl ?g [] (take j ps @ drop j ps)"
    by (simp only: foldl_append)
  finally show ?thesis by (simp add: normalise_params_def)
qed

lemma footer_items_warnings:
  "concat (map item_warnings (footer_items ps j)) = [footer_warning]"
  by (simp add: footer_items_def item_warnings_params)

text \<open>
  C3: take a packet that \<open>encode_packet\<close> wrote from legal fields and embed the 8 bytes
  00 00 00 00 AA BB CC DD at a param boundary of one of its fields (before a param, or
  after the last one). Decoding succeeds, emits exactly one DecodeWarning, and returns
  the packet that the bytes without the footer decode to: the 8 bytes are skipped and
  the params after them are read. The two size words must still fit in their 3 and 4
  bytes.
\<close>

theorem decode_embedded_footer:
  assumes enc: "encode_packet ev dtu packet_type packet_id timestamp info fs = Inr buf"
    and pt: "length packet_type \<le> 4"
    and info: "length info = 4"
    and legal: "list_all (legal_field ev dv) fs"
    and ts: "utd (fst (dtu timestamp)) (snd (dtu timestamp)) = timestamp"
    and i: "i < length fs"
    and j: "j \<le> length (fd_params (fs ! i))"
    and field_fit: "field_size ev (fs ! i) div 4 + 2 < 256 ^ 3"
    and total_fit: "length buf div 4 + 2 < 256 ^ 4"
  shows "decode_packet dv utd (embed_footer buf (field_offset ev fs i) (param_offset ev fs i j)) =
         Some ([footer_warning],
               Inr (PacketData (normalise_identifier packet_type) packet_id timestamp info
                      (map normalise_field fs)))"
proof -
  let ?f = "fs ! i"
  let ?ps = "fd_params ?f"
  let ?unix = "fst (dtu timestamp)" and ?nano = "snd (dtu timestamp)"
  define wfd where "wfd = (fd_name ?f, fd_id ?f, footer_items ?ps j)"
  define wfs where "wfs = map to_wfield (take i fs) @ wfd # map to_wfield (drop (Suc i) fs)"
  define body where "body = concat (map (field_bytes ev) (take i fs))
      @ wire_field ev (fd_name ?f) (fd_id ?f) (footer_items ?ps j)
      @ concat (map (field_bytes ev) (drop (Suc i) fs))"
  note lay = encode_packet_layout [OF enc]
  from lay have ok: "enc_packet_ok ev packet_id ?unix ?nano fs" by simp
  then have fok: "list_all (enc_field_ok ev) fs" by (simp add: enc_packet_ok_def)
  from fok i have f_ok: "enc_field_ok ev ?f" by (simp add: list_all_length)
  from legal i have f_legal: "legal_field ev dv ?f" by (simp add: list_all_length)
  have emb: "embed_footer buf (field_offset ev fs i) (param_offset ev fs i j) =
      wire_packet packet_type packet_id [1, 0, 0, 0] ?unix ?nano info body [0, 0, 0, 0]"
    unfolding body_def by (rule embed_footer_layout [OF enc i])
  have to_w: "map (wfield_bytes ev \<circ> to_wfield) xs = map (field_bytes ev) xs" for xs
    by (simp add: wfield_bytes_to_wfield)
  have wfd_bytes: "wfield_bytes ev wfd = wire_field ev (fd_name ?f) (fd_id ?f) (footer_items ?ps j)"
    by (simp add: wfd_def wfield_bytes_def)
  have body_wfs: "body = concat (map (wfield_bytes ev) wfs)"
    by (simp add: body_def wfs_def to_w wfd_bytes)
  have all_ok: "list_all (wfield_ok ev dv) (map to_wfield fs)"
    by (rule wfields_ok [OF fok legal])
  have side_ok: "list_all (wfield_ok ev dv) (map to_wfield (take i fs))"
    "list_all (wfield_ok ev dv) (map to_wfield (drop (Suc i) fs))"
    using all_ok by (auto simp: list_all_iff dest: in_set_takeD in_set_dropD)
  have words: "(12 + length (items_bytes ev (footer_items ?ps j))) div 4 = field_size ev ?f div 4 + 2"
    unfolding length_footer_items
    using words_plus_2 [OF field_size_aligned [of ev ?f]]
    by (simp add: field_size_def add.assoc)
  have wfd_ok: "wfield_ok ev dv wfd"
    using f_ok f_legal field_fit
    by (simp add: wfield_ok_def wfd_def enc_field_ok_def legal_field_def footer_items_ok words)
  have wok: "list_all (wfield_ok ev dv) wfs"
    by (simp add: wfs_def side_ok wfd_ok)
  have lbuf: "length buf = 40 + sum_list (map (field_size ev) fs)"
    using lay
    by (simp add: wire_packet_def wire_header_def packet_header_magic_def packet_footer_magic_def
        length_concat_fields)
  have lF: "length (wire_field ev (fd_name ?f) (fd_id ?f) (footer_items ?ps j)) = field_size ev ?f + 8"
    by (simp add: length_wire_field length_footer_items field_size_def)
  have split: "sum_list (map (field_size ev) fs) =
      sum_list (map (field_size ev) (take i fs)) + field_size ev ?f
        + sum_list (map (field_size ev) (drop (Suc i) fs))"
  proof -
    have "sum_list (map (field_size ev) fs) =
          sum_list (map (field_size ev) (take i fs @ fs ! i # drop (Suc i) fs))"
      using id_take_nth_drop [OF i] by simp
    then show ?thesis by simp
  qed
  have lbody: "40 + length body = length buf + 8"
    by (simp add: body_def lF lbuf split length_concat_fields del: length_field_bytes)
  have al: "length buf mod 4 = 0"
    unfolding lbuf using fields_size_aligned [of ev fs] by presburger
  have fit: "(40 + length body) div 4 < 256 ^ 4"
    unfolding lbody using words_plus_2 [OF al] total_fit by simp
  have dec: "decode_packet dv utd
      (wire_packet packet_type packet_id [1, 0, 0, 0] ?unix ?nano info body [0, 0, 0, 0]) =
      Some (concat (map wfield_warnings wfs),
            Inr (PacketData (normalise_identifier packet_type) packet_id (utd ?unix ?nano)
                   (pack_s 4 info) (map wfield_decoded wfs)))"
    by (rule decode_wire_packet [OF wok body_wfs pt _ _ _ _ _ _ _ _ fit])
      (use ok in \<open>simp_all add: enc_packet_ok_def\<close>)
  have no_w: "concat (map (wfield_warnings \<circ> to_wfield) xs) = []" for xs :: "'a FieldData list"
    by (simp add: wfield_warnings_to_wfield)
  have wfd_w: "wfield_warnings wfd = [footer_warning]"
    by (simp add: wfd_def wfield_warnings_def footer_items_warnings)
  have warns: "concat (map wfield_warnings wfs) = [footer_warning]"
    by (simp add: wfs_def no_w wfd_w)
  have "wfield_decoded wfd = normalise_field ?f"
    by (simp add: wfd_def wfield_decoded_def normalise_field_def footer_items_decoded)
  then have "map wfield_decoded wfs =
      map normalise_field (take i fs) @ normalise_field ?f # map normalise_field (drop (Suc i) fs)"
    by (simp add: wfs_def comp_def wfield_decoded_to_wfield)
  also have "\<dots> = map normalise_field (take i fs @ ?f # drop (Suc i) fs)" by simp
  also have "\<dots> = map normalise_field fs" using id_take_nth_drop [OF i] by simp
  finally have fields: "map wfield_decoded wfs = map normalise_field fs" .
  show ?thesis
    unfolding emb dec warns fields by (simp add: ts pack_s_exact [OF info])
qed

lemmas embed_eval = embed_footer_def field_offset_def param_offset_def example_fields_def
  field_size_def param_size_def encoded_def spec_encode_value_def pad_len_def to_le_4 to_le_3
  py_slice_def slice_assign_def packet_footer_bytes_def Let_def

text \<open>
  The example packet with a footer before the second param of its field: 84 bytes, one
  warning, the same packet.
\<close>

theorem decode_embedded_footer_witness:
  "embed_footer example_packet (field_offset spec_encode_value example_fields 0)
       (param_offset spec_encode_value example_fields 0 1)
     = [221, 204, 187, 170, 84, 69, 83, 84, 21, 0, 0, 0, 1, 0, 0, 0, 1, 0, 0, 0,
        0, 0, 0, 0, 0, 0, 0, 0, 48, 48, 48, 48,
        69, 67, 72, 79, 11, 0, 0, 0, 7, 0, 0, 0,
        86, 65, 76, 85, 3, 0, 0, 1, 42, 0, 0, 0,
        0, 0, 0, 0, 170, 187, 204, 221,
        84, 32, 0, 0, 3, 0, 0, 2, 97, 98, 99, 100,
        0, 0, 0, 0, 170, 187, 204, 221]
   \<and> decode_packet spec_decode_value Pair
       [221, 204, 187, 170, 84, 69, 83, 84, 21, 0, 0, 0, 1, 0, 0, 0, 1, 0, 0, 0,
        0, 0, 0, 0, 0, 0, 0, 0, 48, 48, 48, 48,
        69, 67, 72, 79, 11, 0, 0, 0, 7, 0, 0, 0,
        86, 65, 76, 85, 3, 0, 0, 1, 42, 0, 0, 0,
        0, 0, 0, 0, 170, 187, 204, 221,
        84, 32, 0, 0, 3, 0, 0, 2, 97, 98, 99, 100,
        0, 0, 0, 0, 170, 187, 204, 221]
     = Some ([footer_warning], Inr (PacketData ''TEST'' 1 (0, 0) [48, 48, 48, 48]
         [FieldData ''ECHO'' 7 [(''VALU'', PInt 42), (''T'', PStr ''abcd'')]]))"
proof -
  have emb: "embed_footer example_packet (field_offset spec_encode_value example_fields 0)
       (param_offset spec_encode_value example_fields 0 1)
     = [221, 204, 187, 170, 84, 69, 83, 84, 21, 0, 0, 0, 1, 0, 0, 0, 1, 0, 0, 0,
        0, 0, 0, 0, 0, 0, 0, 0, 48, 48, 48, 48,
        69, 67, 72, 79, 11, 0, 0, 0, 7, 0, 0, 0,
        86, 65, 76, 85, 3, 0, 0, 1, 42, 0, 0, 0,
        0, 0, 0, 0, 170, 187, 204, 221,
        84, 32, 0, 0, 3, 0, 0, 2, 97, 98, 99, 100,
        0, 0, 0, 0, 170, 187, 204, 221]"
    by (simp add: embed_eval example_packet_def)
  have len: "length example_packet = 76" by (simp add: example_packet_def)
  have fsz: "field_size spec_encode_value (example_fields ! 0) = 36"
    by (simp add: example_fields_def field_size_def param_size_def encoded_def
        spec_encode_value_def pad_len_def to_le_4 latin1_encode_def Let_def)
  have hyps: "length ''TEST'' \<le> 4" "length [48, 48, 48, 48 :: byte] = 4"
    "Pair (fst (0 :: int, 0 :: int)) (snd (0 :: int, 0 :: int)) = (0, 0)"
    "0 < length example_fields" "1 \<le> length (fd_params (example_fields ! 0))"
    "field_size spec_encode_value (example_fields ! 0) div 4 + 2 < 256 ^ 3"
    "length example_packet div 4 + 2 < 256 ^ 4"
    by (simp_all add: len fsz) (simp_all add: example_fields_def)
  show ?thesis
    using decode_embedded_footer [where ev = spec_encode_value and dv = spec_decode_value
        and dtu = "\<lambda>t. t" and utd = Pair and i = 0 and j = 1, OF example_encoded]
      example_legal hyps
    unfolding emb
    by (simp add: example_fields_def normalise_identifier_def normalise_field_def
        normalise_params_def)
qed

end
